theory Spec2Isabelle
  imports Complex_Main "HOL-Library.AList"
begin

section \<open>The decoded replay trace\<close>

text \<open>
  \<open>PhysPar\<close> reads a replay that an external decoder has turned into JSON. The parts of
  that document the class touches are modelled as records and datatypes. JSON numbers are
  \<open>real\<close>; frame indices and actor ids are Python integers, \<open>int\<close>. A Python
  \<open>dict\<close> keeps insertion order, which \<open>find_goals\<close> depends on, so every dictionary
  is an association list: \<open>map_of\<close> looks a key up, \<open>AList.update\<close> stores a value
  (in place for an existing key, appended for a new one, as Python does).
\<close>

datatype error = KeyError | IndexError | ValueError | AttributeError

datatype vector = Vector (vec_x: real) (vec_y: real) (vec_z: real)

datatype quaternion = Quaternion (quat_x: real) (quat_y: real) (quat_z: real) (quat_w: real)

text \<open>The decoder writes a rotation under the key \<open>quaternion\<close> or under another key.\<close>

datatype rotation_value = RotQuaternion quaternion | RotOther

text \<open>
  The decoder's rigid-body state: both velocities may be \<open>null\<close>; location and rotation
  are always objects.
\<close>

record rigid_body_state =
  angular_velocity :: "vector option"
  linear_velocity :: "vector option"
  location :: vector
  rotation :: rotation_value

text \<open>
  The \<open>value\<close> object of an updated attribute: what the code reads of it is the key
  \<open>rigid_body_state\<close>, or the key \<open>team_paint\<close> with its \<open>team\<close>.
\<close>

datatype attr_value = RigidBodyState rigid_body_state | TeamPaint int | OtherAttr

record entry =
  entry_id :: int
  entry_value :: attr_value

text \<open>
  The \<open>value\<close> object of a replication has the key \<open>spawned\<close> (with a class name),
  the key \<open>updated\<close> (with a list of attributes), or neither.
\<close>

datatype repl_value = Spawned string | Updated "entry list" | Destroyed

record replication =
  actor_id :: int
  rvalue :: repl_value

record mark =
  mark_frame :: int
  mark_value :: string

record trace =
  frames :: "replication list list"
  update_frames :: "int list"
  objects :: "string list"
  marks :: "mark list"

type_synonym components = "(string \<times> real) list"
type_synonym snapshot = "(string \<times> components) list"
type_synonym frame_snapshots = "(string \<times> snapshot) list"
type_synonym physics = "(int \<times> frame_snapshots) list"

definition GOAL_Y :: real where "GOAL_Y = 510000"
definition PHYS_ID :: int where "PHYS_ID = 42"
definition COLOR_ID :: int where "COLOR_ID = 66"
definition TEAM_SIZE :: nat where "TEAM_SIZE = 3"

text \<open>
  \<open>xs[i]\<close> on a Python list: an index from \<open>-len(xs)\<close> up to \<open>-1\<close> is read from the
  end, and an index outside \<open>-len(xs) .. len(xs) - 1\<close> raises \<open>IndexError\<close>.
\<close>

definition py_index :: "'a list \<Rightarrow> int \<Rightarrow> error + 'a" where
  "py_index xs i =
     (if 0 \<le> i \<and> i < int (length xs) then Inr (xs ! nat i)
      else if i < 0 \<and> - int (length xs) \<le> i then Inr (xs ! nat (int (length xs) + i))
      else Inl IndexError)"

section \<open>Identity resolution\<close>

fun spawned_ids :: "replication list \<Rightarrow> (int \<times> string) list \<Rightarrow> (int \<times> string) list" where
  "spawned_ids [] output = output"
| "spawned_ids (r # rs) output =
     (case rvalue r of
        Spawned class_name \<Rightarrow> spawned_ids rs (AList.update (actor_id r) class_name output)
      | _ \<Rightarrow> spawned_ids rs output)"

definition find_ids :: "trace \<Rightarrow> int \<Rightarrow> error + (int \<times> string) list" where
  "find_ids tr spawnframe =
     (if spawnframe \<notin> set (update_frames tr) then Inl KeyError
      else case py_index (frames tr) spawnframe of
        Inl e \<Rightarrow> Inl e
      | Inr reps \<Rightarrow> Inr (sort_key fst (spawned_ids reps [])))"

text \<open>\<open>get_ids\<close> as \<open>get_physics\<close> calls it: with a spawn frame, never with \<open>frame\<close>.\<close>

definition get_ids :: "trace \<Rightarrow> string \<Rightarrow> int \<Rightarrow> error + int list" where
  "get_ids tr obj spawnframe =
     (if obj \<notin> set (objects tr) then Inl KeyError
      else case find_ids tr spawnframe of
        Inl e \<Rightarrow> Inl e
      | Inr helper \<Rightarrow> Inr (sort (filter (\<lambda>x. map_of helper x = Some obj) (map fst helper))))"

text \<open>The two team lists \<open>{0: [], 1: []}\<close> are a pair.\<close>

fun team_entries :: "int \<Rightarrow> entry list \<Rightarrow> int list \<times> int list \<Rightarrow> error + int list \<times> int list" where
  "team_entries a [] teams = Inr teams"
| "team_entries a (e # es) teams =
     (if entry_id e \<noteq> COLOR_ID then team_entries a es teams
      else case entry_value e of
        TeamPaint team \<Rightarrow>
          (if team = 0 then team_entries a es (fst teams @ [a], snd teams)
           else if team = 1 then team_entries a es (fst teams, snd teams @ [a])
           else Inl KeyError)
      | _ \<Rightarrow> Inl KeyError)"

fun team_replications ::
  "int list \<Rightarrow> replication list \<Rightarrow> int list \<times> int list \<Rightarrow> error + int list \<times> int list" where
  "team_replications cars [] teams = Inr teams"
| "team_replications cars (r # rs) teams =
     (case rvalue r of
        Spawned c \<Rightarrow> team_replications cars rs teams
      | Destroyed \<Rightarrow>
          (if actor_id r \<notin> set cars then team_replications cars rs teams else Inl KeyError)
      | Updated updated \<Rightarrow>
          (if actor_id r \<notin> set cars then team_replications cars rs teams
           else case team_entries (actor_id r) updated teams of
             Inl e \<Rightarrow> Inl e
           | Inr teams' \<Rightarrow> team_replications cars rs teams'))"

text \<open>\<open>find_teams\<close> as \<open>get_physics\<close> calls it: for a single spawn frame.\<close>

definition find_teams :: "trace \<Rightarrow> int \<Rightarrow> error + int list \<times> int list" where
  "find_teams tr spawnframe =
     (if spawnframe \<notin> set (update_frames tr) then Inl KeyError
      else case get_ids tr ''TAGame.Car_TA'' spawnframe of
        Inl e \<Rightarrow> Inl e
      | Inr cars \<Rightarrow>
          (case py_index (frames tr) spawnframe of
             Inl e \<Rightarrow> Inl e
           | Inr reps \<Rightarrow> team_replications cars reps ([], [])))"

section \<open>Physics extraction\<close>

text \<open>Python's \<open>str\<close> of an integer, for the key of a car.\<close>

definition digit_char :: "nat \<Rightarrow> char" where
  "digit_char d = char_of (48 + d)"

function str_nat :: "nat \<Rightarrow> string" where
  "str_nat n = (if n < 10 then [digit_char n] else str_nat (n div 10) @ [digit_char (n mod 10)])"
  by pat_completeness auto
termination
  by (relation "measure id") auto

definition str_int :: "int \<Rightarrow> string" where
  "str_int i = (if i < 0 then CHR ''-'' # str_nat (nat (- i)) else str_nat (nat i))"

definition car_key :: "int list \<times> int list \<Rightarrow> int \<Rightarrow> string" where
  "car_key teams a = (if a \<in> set (snd teams) then ''1'' else ''0'') @ ''_car_'' @ str_int a"

definition vector_components :: "vector \<Rightarrow> components" where
  "vector_components v = [(''x'', vec_x v), (''y'', vec_y v), (''z'', vec_z v)]"

definition quaternion_components :: "quaternion \<Rightarrow> components" where
  "quaternion_components q =
     [(''x'', quat_x q), (''y'', quat_y q), (''z'', quat_z q), (''w'', quat_w q)]"

definition make_snapshot :: "vector \<Rightarrow> vector \<Rightarrow> vector \<Rightarrow> quaternion \<Rightarrow> snapshot" where
  "make_snapshot av lv loc q =
     [(''angular_velocity'', vector_components av),
      (''linear_velocity'', vector_components lv),
      (''location'', vector_components loc),
      (''rotation'', quaternion_components q)]"

text \<open>The first attribute with the physics id, as the loop with \<open>break\<close> finds it.\<close>

fun find_phys :: "entry list \<Rightarrow> error + rigid_body_state option" where
  "find_phys [] = Inr None"
| "find_phys (e # es) =
     (if entry_id e \<noteq> PHYS_ID then find_phys es
      else case entry_value e of
        RigidBodyState phys \<Rightarrow> Inr (Some phys)
      | _ \<Rightarrow> Inl KeyError)"

text \<open>\<open>output[j][key]\<close>, and \<open>bool(output.get(j, {}).get(key, {}))\<close>.\<close>

definition get_snapshot :: "physics \<Rightarrow> int \<Rightarrow> string \<Rightarrow> snapshot option" where
  "get_snapshot output j key =
     (case map_of output j of None \<Rightarrow> None | Some m \<Rightarrow> map_of m key)"

definition has_snapshot :: "physics \<Rightarrow> int \<Rightarrow> string \<Rightarrow> bool" where
  "has_snapshot output j key =
     (case get_snapshot output j key of None \<Rightarrow> False | Some s \<Rightarrow> s \<noteq> [])"

text \<open>\<open>if output.get(j) is None: output[j] = {}\<close>, then \<open>output[j][key] = s\<close>.\<close>

definition set_snapshot :: "physics \<Rightarrow> int \<Rightarrow> string \<Rightarrow> snapshot \<Rightarrow> physics" where
  "set_snapshot output j key s =
     AList.update j (AList.update key s (case map_of output j of None \<Rightarrow> [] | Some m \<Rightarrow> m)) output"

text \<open>
  The \<open>while num_missing < 5\<close> loop up to its \<open>for\<close>: the number of frames to fill, or
  nothing when the loop ends without finding an earlier snapshot.
\<close>

function find_gap :: "physics \<Rightarrow> int \<Rightarrow> string \<Rightarrow> nat \<Rightarrow> nat option" where
  "find_gap output i key num_missing =
     (if num_missing < 5
      then (if \<not> has_snapshot output (i - int num_missing) key
            then find_gap output i key (num_missing + 1)
            else Some (num_missing - 1))
      else None)"
  by pat_completeness auto
termination
  by (relation "measure (\<lambda>(output, i, key, num_missing). 5 - num_missing)") auto

declare find_gap.simps [simp del]

text \<open>The \<open>for n in range(num_missing)\<close> loop, from \<open>n\<close> on.\<close>

fun fill_gap :: "physics \<Rightarrow> int \<Rightarrow> string \<Rightarrow> nat list \<Rightarrow> error + physics" where
  "fill_gap output i key [] = Inr output"
| "fill_gap output i key (n # ns) =
     (case get_snapshot output i key of
        None \<Rightarrow> Inl KeyError
      | Some s \<Rightarrow> fill_gap (set_snapshot output (i - 1 - int n) key s) i key ns)"

definition interpolation :: "physics \<Rightarrow> int \<Rightarrow> string \<Rightarrow> error + physics" where
  "interpolation output i key =
     (if i = 0 \<or> has_snapshot output (i - 1) key then Inr output
      else case find_gap output i key 1 of
        None \<Rightarrow> Inr output
      | Some num_missing \<Rightarrow> fill_gap output i key [0..<num_missing])"

text \<open>The body of \<open>for replication in frame['replications']\<close>.\<close>

definition process_replication ::
  "bool \<Rightarrow> int \<Rightarrow> int list \<Rightarrow> int list \<Rightarrow> int list \<times> int list \<Rightarrow> physics \<Rightarrow> replication
     \<Rightarrow> error + physics" where
  "process_replication interpolate i ball_id car_ids teams output r =
     (case rvalue r of
        Spawned c \<Rightarrow> Inr output
      | Destroyed \<Rightarrow> Inr output
      | Updated updated \<Rightarrow>
          (if actor_id r \<notin> set (ball_id @ car_ids) then Inr output
           else case find_phys updated of
             Inl e \<Rightarrow> Inl e
           | Inr None \<Rightarrow> Inr output
           | Inr (Some phys) \<Rightarrow>
               (case angular_velocity phys of
                  None \<Rightarrow> Inr output
                | Some av \<Rightarrow>
                    (case linear_velocity phys of
                       None \<Rightarrow> Inr output
                     | Some lv \<Rightarrow>
                         (let key = (if actor_id r \<in> set ball_id then ''ball''
                                     else car_key teams (actor_id r))
                          in case rotation phys of
                               RotOther \<Rightarrow> Inl KeyError
                             | RotQuaternion q \<Rightarrow>
                                 (let output' = set_snapshot output i key
                                        (make_snapshot av lv (location phys) q)
                                  in if \<not> interpolate then Inr output'
                                     else interpolation output' i key))))))"

fun process_replications ::
  "bool \<Rightarrow> int \<Rightarrow> int list \<Rightarrow> int list \<Rightarrow> int list \<times> int list \<Rightarrow> physics \<Rightarrow> replication list
     \<Rightarrow> error + physics" where
  "process_replications interpolate i ball_id car_ids teams output [] = Inr output"
| "process_replications interpolate i ball_id car_ids teams output (r # rs) =
     (case process_replication interpolate i ball_id car_ids teams output r of
        Inl e \<Rightarrow> Inl e
      | Inr output' \<Rightarrow> process_replications interpolate i ball_id car_ids teams output' rs)"

text \<open>The loop state of \<open>get_physics\<close>.\<close>

record extractor =
  update_pointer :: nat
  ball_id :: "int list"
  car_ids :: "int list"
  teams :: "int list \<times> int list"
  "output" :: physics

text \<open>
  The \<open>if\<close> that opens the body of the frame loop: the guard, then the three calls of the
  identity resolver and the step of the pointer. The index \<open>update_pointer\<close> is in range
  whenever the guard's first conjunct holds.
\<close>

definition at_boundary :: "trace \<Rightarrow> nat \<Rightarrow> extractor \<Rightarrow> bool" where
  "at_boundary tr i st \<longleftrightarrow>
     int (update_pointer st) \<noteq> int (length (update_frames tr)) - 1 \<and>
     int i = update_frames tr ! update_pointer st"

definition resolve_epoch :: "trace \<Rightarrow> bool \<Rightarrow> bool \<Rightarrow> extractor \<Rightarrow> error + extractor" where
  "resolve_epoch tr ball cars st =
     (let spawnframe = update_frames tr ! update_pointer st in
      case (if ball then get_ids tr ''TAGame.Ball_TA'' spawnframe else Inr (ball_id st)) of
        Inl e \<Rightarrow> Inl e
      | Inr b \<Rightarrow>
          (case (if cars then get_ids tr ''TAGame.Car_TA'' spawnframe else Inr (car_ids st)) of
             Inl e \<Rightarrow> Inl e
           | Inr c \<Rightarrow>
               (case (if cars then find_teams tr spawnframe else Inr (teams st)) of
                  Inl e \<Rightarrow> Inl e
                | Inr t \<Rightarrow>
                    Inr (st\<lparr>update_pointer := update_pointer st + 1, ball_id := b,
                            car_ids := c, teams := t\<rparr>))))"

definition frame_step ::
  "trace \<Rightarrow> bool \<Rightarrow> bool \<Rightarrow> bool \<Rightarrow> nat \<Rightarrow> replication list \<Rightarrow> extractor \<Rightarrow> error + extractor" where
  "frame_step tr ball cars interpolate i frame st =
     (case (if at_boundary tr i st then resolve_epoch tr ball cars st else Inr st) of
        Inl e \<Rightarrow> Inl e
      | Inr st' \<Rightarrow>
          (case process_replications interpolate (int i) (ball_id st') (car_ids st') (teams st')
                  (output st') frame of
             Inl e \<Rightarrow> Inl e
           | Inr output' \<Rightarrow> Inr (st'\<lparr>output := output'\<rparr>)))"

text \<open>\<open>for i, frame in enumerate(all_frames)\<close>, from index \<open>i\<close> on.\<close>

fun frames_loop ::
  "trace \<Rightarrow> bool \<Rightarrow> bool \<Rightarrow> bool \<Rightarrow> nat \<Rightarrow> replication list list \<Rightarrow> extractor \<Rightarrow> error + extractor" where
  "frames_loop tr ball cars interpolate i [] st = Inr st"
| "frames_loop tr ball cars interpolate i (frame # rest) st =
     (case frame_step tr ball cars interpolate i frame st of
        Inl e \<Rightarrow> Inl e
      | Inr st' \<Rightarrow> frames_loop tr ball cars interpolate (Suc i) rest st')"

definition initial_extractor :: extractor where
  "initial_extractor =
     \<lparr>update_pointer = 0, ball_id = [], car_ids = [], teams = ([], []), output = []\<rparr>"

definition run_extractor :: "trace \<Rightarrow> bool \<Rightarrow> bool \<Rightarrow> bool \<Rightarrow> error + extractor" where
  "run_extractor tr ball cars interpolate =
     (if \<not> (ball \<or> cars) then Inl AttributeError
      else case update_frames tr of
        [] \<Rightarrow> Inl IndexError
      | u # us \<Rightarrow>
          (if u \<noteq> 0 then Inl AttributeError
           else frames_loop tr ball cars interpolate 0 (frames tr) initial_extractor))"

definition get_physics :: "trace \<Rightarrow> bool \<Rightarrow> bool \<Rightarrow> bool \<Rightarrow> error + physics" where
  "get_physics tr ball cars interpolate =
     (case run_extractor tr ball cars interpolate of
        Inl e \<Rightarrow> Inl e
      | Inr st \<Rightarrow> Inr (output st))"

section \<open>Event detection\<close>

text \<open>\<open>'Goal' in mark['value']\<close>: the substring test of Python strings.\<close>

fun starts_with :: "string \<Rightarrow> string \<Rightarrow> bool" where
  "starts_with [] s = True"
| "starts_with (p # ps) [] = False"
| "starts_with (p # ps) (c # cs) = (p = c \<and> starts_with ps cs)"

fun str_contains :: "string \<Rightarrow> string \<Rightarrow> bool" where
  "str_contains sub [] = (sub = [])"
| "str_contains sub (c # cs) = (starts_with sub (c # cs) \<or> str_contains sub cs)"

text \<open>\<open>snap[attr][var]\<close>; \<open>None\<close> stands for the \<open>KeyError\<close> of a missing key.\<close>

definition snap_component :: "snapshot \<Rightarrow> string \<Rightarrow> string \<Rightarrow> real option" where
  "snap_component s attr var = (case map_of s attr of None \<Rightarrow> None | Some c \<Rightarrow> map_of c var)"

text \<open>The frames that have a ball, in the iteration order of the collection.\<close>

fun ball_only :: "physics \<Rightarrow> (int \<times> snapshot) list" where
  "ball_only [] = []"
| "ball_only ((frame, m) # rest) =
     (case map_of m ''ball'' of
        None \<Rightarrow> ball_only rest
      | Some b \<Rightarrow> (frame, b) # ball_only rest)"

fun possible_goals :: "(int \<times> snapshot) list \<Rightarrow> error + int list" where
  "possible_goals [] = Inr []"
| "possible_goals ((frame, b) # rest) =
     (case snap_component b ''location'' ''y'' of
        None \<Rightarrow> Inl KeyError
      | Some y \<Rightarrow>
          (case possible_goals rest of
             Inl e \<Rightarrow> Inl e
           | Inr gs \<Rightarrow> Inr (if \<bar>y\<bar> > GOAL_Y then frame # gs else gs)))"

text \<open>The inner loop with its \<open>break\<close>: the first candidate not before the mark.\<close>

fun first_goal :: "int \<Rightarrow> int list \<Rightarrow> int option" where
  "first_goal frame [] = None"
| "first_goal frame (goal # goals) =
     (if goal \<ge> frame then Some goal else first_goal frame goals)"

definition scoring_team :: "mark \<Rightarrow> int" where
  "scoring_team score = (if mark_value score = ''Team1Goal'' then 1 else 0)"

fun goal_marks :: "mark list \<Rightarrow> int list \<Rightarrow> (int \<times> int) list \<Rightarrow> (int \<times> int) list" where
  "goal_marks [] possible goal_frames = goal_frames"
| "goal_marks (score # scores) possible goal_frames =
     (case first_goal (mark_frame score) possible of
        None \<Rightarrow> goal_marks scores possible goal_frames
      | Some goal \<Rightarrow>
          goal_marks scores possible (AList.update goal (scoring_team score) goal_frames))"

definition scores_of :: "mark list \<Rightarrow> mark list" where
  "scores_of ms = filter (\<lambda>mark. str_contains ''Goal'' (mark_value mark)) ms"

definition find_goals :: "physics \<Rightarrow> mark list \<Rightarrow> error + (int \<times> int) list" where
  "find_goals physics ms =
     (case possible_goals (ball_only physics) of
        Inl e \<Rightarrow> Inl e
      | Inr possible \<Rightarrow> Inr (goal_marks (scores_of ms) possible []))"

text \<open>The truth value of \<open>self.physics.get(i)\<close>: the frame has a non-empty entry.\<close>

definition frame_present :: "physics \<Rightarrow> int \<Rightarrow> bool" where
  "frame_present physics i = (case map_of physics i of None \<Rightarrow> False | Some m \<Rightarrow> m \<noteq> [])"

definition reset_at :: "physics \<Rightarrow> int \<Rightarrow> bool" where
  "reset_at physics window = (\<not> list_ex (frame_present physics) [window..window + 9])"

definition full_at :: "physics \<Rightarrow> int \<Rightarrow> bool" where
  "full_at physics window = list_all (\<lambda>i. frame_present physics (window + int i)) [0..<10]"

text \<open>
  The \<open>while not found\<close> loop. Nothing bounds it, so it is a partial function: \<open>None\<close>
  is the run that never returns.
\<close>

partial_function (option) kickoff_scan :: "physics \<Rightarrow> int \<Rightarrow> bool \<Rightarrow> int option" where
  "kickoff_scan physics window cars_reset =
     (let cars_reset' = (if \<not> cars_reset then reset_at physics window else cars_reset)
      in if cars_reset' \<and> full_at physics window then Some window
         else kickoff_scan physics (window + 1) cars_reset')"

declare kickoff_scan.simps [code]

fun kickoffs_loop :: "physics \<Rightarrow> int list \<Rightarrow> (int \<times> int) list \<Rightarrow> (int \<times> int) list option" where
  "kickoffs_loop physics [] out = Some out"
| "kickoffs_loop physics (goal_frame # rest) out =
     (case kickoff_scan physics goal_frame False of
        None \<Rightarrow> None
      | Some window \<Rightarrow> kickoffs_loop physics rest (AList.update goal_frame window out))"

definition kickoff_starts :: "(int \<times> int) list \<Rightarrow> int list" where
  "kickoff_starts goals = butlast (map fst goals) @ [0]"

definition find_kickoffs :: "physics \<Rightarrow> mark list \<Rightarrow> (error + (int \<times> int) list) option" where
  "find_kickoffs physics ms =
     (case find_goals physics ms of
        Inl e \<Rightarrow> Some (Inl e)
      | Inr goals \<Rightarrow> map_option Inr (kickoffs_loop physics (kickoff_starts goals) []))"

subsection \<open>Possession intervals\<close>

text \<open>
  \<open>numpy\<close> divides in floating point; the model divides in \<open>real\<close>. The comparisons of
  positions and velocities are exact in both.
\<close>

fun cumsum :: "nat \<Rightarrow> bool list \<Rightarrow> nat list" where
  "cumsum acc [] = []"
| "cumsum acc (b # bs) = (acc + of_bool b) # cumsum (acc + of_bool b) bs"

definition percentage :: "bool list \<Rightarrow> real list" where
  "percentage arr = map2 (\<lambda>c n. real c / real n) (cumsum 0 arr) [1..<length arr + 1]"

text \<open>\<open>np.argmin\<close> of a Boolean array: the first \<open>False\<close>, or 0 when there is none.\<close>

fun argmin_bool :: "bool list \<Rightarrow> nat" where
  "argmin_bool [] = 0"
| "argmin_bool (b # bs) = (if \<not> b then 0 else if list_all id bs then 0 else Suc (argmin_bool bs))"

definition find_window_size :: "bool list \<Rightarrow> real \<Rightarrow> error + nat" where
  "find_window_size arr threshold =
     (if threshold < 0 \<or> threshold > 1 then Inl ValueError
      else if arr = [] then Inl ValueError
      else let above = map (\<lambda>p. p > threshold) (percentage arr)
           in Inr (if list_all id above then length above - 1 else argmin_bool above))"

definition last_kickoff :: "physics \<Rightarrow> int \<Rightarrow> error + int" where
  "last_kickoff physics goal =
     (if physics = [] then Inl ValueError
      else let missing = filter (\<lambda>frame. frame \<notin> set (map fst physics) \<and> frame < goal)
                           [0..Max (set (map fst physics)) - 1]
           in if missing = [] then Inl ValueError else Inr (Max (set missing)))"

text \<open>The pairs of \<open>y_location\<close> and \<open>y_velocity\<close> over the scanned frames.\<close>

fun ball_track :: "physics \<Rightarrow> int list \<Rightarrow> error + (real \<times> real) list" where
  "ball_track physics [] = Inr []"
| "ball_track physics (frame # rest) =
     (case map_of physics frame of
        None \<Rightarrow> Inl KeyError
      | Some m \<Rightarrow>
          (case map_of m ''ball'' of
             None \<Rightarrow> ball_track physics rest
           | Some b \<Rightarrow>
               (case snap_component b ''location'' ''y'' of
                  None \<Rightarrow> Inl KeyError
                | Some y \<Rightarrow>
                    (case snap_component b ''linear_velocity'' ''y'' of
                       None \<Rightarrow> Inl KeyError
                     | Some v \<Rightarrow>
                         (case ball_track physics rest of
                            Inl e \<Rightarrow> Inl e
                          | Inr track \<Rightarrow> Inr ((y, v) # track))))))"

definition attack_line :: real where "attack_line = 170000"

definition together :: "int \<Rightarrow> (real \<times> real) list \<Rightarrow> bool list" where
  "together team track =
     map (\<lambda>(y, v). let sign = (if team \<noteq> 0 then - 1 else 1)
                    in sign * y > attack_line \<or> sign * v > 0) track"

definition scanned_frames :: "int \<Rightarrow> int \<Rightarrow> int list" where
  "scanned_frames goal kickoff = rev [kickoff + 1..goal]"

definition attacking :: "physics \<Rightarrow> int \<Rightarrow> int \<Rightarrow> error + bool list" where
  "attacking physics goal team =
     (case last_kickoff physics goal of
        Inl e \<Rightarrow> Inl e
      | Inr kickoff \<Rightarrow>
          (case ball_track physics (scanned_frames goal kickoff) of
             Inl e \<Rightarrow> Inl e
           | Inr track \<Rightarrow> Inr (together team track)))"

definition possession_interval :: "physics \<Rightarrow> real \<Rightarrow> int \<Rightarrow> int \<Rightarrow> error + int \<times> int" where
  "possession_interval physics threshold goal team =
     (case attacking physics goal team of
        Inl e \<Rightarrow> Inl e
      | Inr arr \<Rightarrow>
          (case find_window_size arr threshold of
             Inl e \<Rightarrow> Inl e
           | Inr k \<Rightarrow> Inr (goal - int k, goal)))"

fun intervals_loop :: "physics \<Rightarrow> real \<Rightarrow> (int \<times> int) list \<Rightarrow> error + (int \<times> int) list" where
  "intervals_loop physics threshold [] = Inr []"
| "intervals_loop physics threshold ((goal, team) # goals) =
     (case possession_interval physics threshold goal team of
        Inl e \<Rightarrow> Inl e
      | Inr iv \<Rightarrow>
          (case intervals_loop physics threshold goals of
             Inl e \<Rightarrow> Inl e
           | Inr ivs \<Rightarrow> Inr (iv # ivs)))"

definition poss_intervals :: "physics \<Rightarrow> mark list \<Rightarrow> real \<Rightarrow> error + (int \<times> int) list" where
  "poss_intervals physics ms threshold =
     (case find_goals physics ms of
        Inl e \<Rightarrow> Inl e
      | Inr goals \<Rightarrow> intervals_loop physics threshold goals)"

section \<open>Feature vectors\<close>

text \<open>The values at the leaves of a snapshot, in the order of its keys.\<close>

definition get_leaf_nodes :: "snapshot \<Rightarrow> real list" where
  "get_leaf_nodes s = concat (map (\<lambda>(attr, comps). map snd comps) s)"

text \<open>
  \<open>set([car for car in objects if car[0] == c])\<close>. The keys of a dictionary are distinct;
  Python leaves the iteration order of a set open, and the model takes the order of the keys.
\<close>

definition team_keys :: "char \<Rightarrow> string list \<Rightarrow> string list" where
  "team_keys c objs = remdups (filter (\<lambda>car. hd car = c) objs)"

fun leaves_of :: "frame_snapshots \<Rightarrow> string list \<Rightarrow> error + real list" where
  "leaves_of phys_snapshot [] = Inr []"
| "leaves_of phys_snapshot (item # items) =
     (case map_of phys_snapshot item of
        None \<Rightarrow> Inl KeyError
      | Some s \<Rightarrow>
          (case leaves_of phys_snapshot items of
             Inl e \<Rightarrow> Inl e
           | Inr vs \<Rightarrow> Inr (get_leaf_nodes s @ vs)))"

text \<open>One team's part of the vector: its cars, then 13 zeros for each missing car.\<close>

definition team_feature :: "frame_snapshots \<Rightarrow> string list \<Rightarrow> error + real list" where
  "team_feature phys_snapshot sublist =
     (case leaves_of phys_snapshot sublist of
        Inl e \<Rightarrow> Inl e
      | Inr vs \<Rightarrow> Inr (vs @ replicate (13 * (TEAM_SIZE - length sublist)) 0))"

definition check_length :: "real list \<Rightarrow> real list option" where
  "check_length frame_feature =
     (if length frame_feature \<noteq> 91 \<and> length frame_feature \<noteq> 92 then None
      else Some frame_feature)"

definition scorer_ok :: "int option \<Rightarrow> bool" where
  "scorer_ok scorer = (case scorer of None \<Rightarrow> True | Some t \<Rightarrow> t = 0 \<or> t = 1)"

definition scorer_label :: "int option \<Rightarrow> real list" where
  "scorer_label scorer = (case scorer of None \<Rightarrow> [] | Some t \<Rightarrow> [of_int t])"

lemma map_of_key_le_Max:
  assumes "map_of (physics :: physics) frame = Some m"
  shows "frame \<le> Max (fst ` set physics)"
proof -
  have "frame \<in> fst ` set physics"
    using assms by (metis domI dom_map_of_conv_image_fst)
  then show ?thesis by simp
qed

function create_feature :: "physics \<Rightarrow> int \<Rightarrow> int option \<Rightarrow> error + real list option" where
  "create_feature physics frame scorer =
     (if \<not> scorer_ok scorer then Inl ValueError
      else case map_of physics frame of
        None \<Rightarrow> Inl KeyError
      | Some phys_snapshot \<Rightarrow>
          (let objs = map fst phys_snapshot in
           if ''ball'' \<notin> set objs then Inr None
           else if [] \<in> set objs then Inl IndexError
           else (let team0 = team_keys CHR ''0'' objs; team1 = team_keys CHR ''1'' objs in
             (case leaves_of phys_snapshot [''ball''] of
                Inl e \<Rightarrow> Inl e
              | Inr ball \<Rightarrow>
                  (if length team0 > TEAM_SIZE then create_feature physics (frame + 1) scorer
                   else (case team_feature phys_snapshot team0 of
                      Inl e \<Rightarrow> Inl e
                    | Inr f0 \<Rightarrow>
                        (if length team1 > TEAM_SIZE
                         then create_feature physics (frame + 1) scorer
                         else (case team_feature phys_snapshot team1 of
                            Inl e \<Rightarrow> Inl e
                          | Inr f1 \<Rightarrow>
                              Inr (check_length (scorer_label scorer @ ball @ f0 @ f1))))))))))"
  by pat_completeness auto

termination
  by (relation "measure (\<lambda>(physics, frame, scorer). nat (Max (fst ` set physics) + 1 - frame))")
    (auto dest: map_of_key_le_Max)

declare create_feature.simps [simp del]

section \<open>Notions the properties are stated with\<close>

text \<open>
  Every rigid-body state the trace holds under the physics id, frame by frame; the set of
  snapshots a collection stores; and the frames at which the kickoff scan, started at
  \<open>window\<close>, may stop.
\<close>

fun updated_physics :: "entry list \<Rightarrow> rigid_body_state list" where
  "updated_physics [] = []"
| "updated_physics (e # es) =
     (case entry_value e of
        RigidBodyState phys \<Rightarrow>
          (if entry_id e = PHYS_ID then phys # updated_physics es else updated_physics es)
      | _ \<Rightarrow> updated_physics es)"

definition replication_physics :: "replication \<Rightarrow> rigid_body_state list" where
  "replication_physics r = (case rvalue r of Updated updated \<Rightarrow> updated_physics updated | _ \<Rightarrow> [])"

definition trace_physics :: "trace \<Rightarrow> rigid_body_state list" where
  "trace_physics tr = concat (map (\<lambda>frame. concat (map replication_physics frame)) (frames tr))"

definition extracted_from :: "trace \<Rightarrow> snapshot \<Rightarrow> bool" where
  "extracted_from tr s \<longleftrightarrow>
     (\<exists>phys \<in> set (trace_physics tr). \<exists>av lv q.
        angular_velocity phys = Some av \<and> linear_velocity phys = Some lv \<and>
        rotation phys = RotQuaternion q \<and> s = make_snapshot av lv (location phys) q)"

definition stored :: "physics \<Rightarrow> snapshot set" where
  "stored physics = {s. \<exists>i m k. (i, m) \<in> set physics \<and> (k, s) \<in> set m}"

definition qualifies :: "physics \<Rightarrow> int \<Rightarrow> bool \<Rightarrow> int \<Rightarrow> bool" where
  "qualifies physics window cars_reset k \<longleftrightarrow>
     window \<le> k \<and> full_at physics k \<and>
     (cars_reset \<or> (\<exists>j. window \<le> j \<and> j \<le> k \<and> reset_at physics j))"

text \<open>
  The candidate goal frames of a collection, in the order in which it lists them; a
  scoring mark, whose value has \<open>Goal\<close> in it; the first listed candidate that is not
  before a frame; the scoring marks that select the candidate \<open>g\<close>, in the order of the
  mark list; and the mean of the first \<open>j + 1\<close> attacking flags of a scan, which starts
  at the goal.
\<close>

definition candidates :: "physics \<Rightarrow> int list" where
  "candidates physics =
     map fst (filter (\<lambda>(frame, m).
        case map_of m ''ball'' of
          None \<Rightarrow> False
        | Some b \<Rightarrow>
            (case map_of b ''location'' of
               None \<Rightarrow> False
             | Some loc \<Rightarrow> (case map_of loc ''y'' of None \<Rightarrow> False | Some y \<Rightarrow> 510000 < \<bar>y\<bar>)))
        physics)"

definition is_scoring :: "mark \<Rightarrow> bool" where
  "is_scoring score \<longleftrightarrow> (\<exists>pre post. mark_value score = pre @ ''Goal'' @ post)"

definition first_at_or_after :: "int list \<Rightarrow> int \<Rightarrow> int \<Rightarrow> bool" where
  "first_at_or_after possible frame g \<longleftrightarrow>
     (\<exists>pre post. possible = pre @ g # post \<and> (\<forall>c \<in> set pre. c < frame) \<and> frame \<le> g)"

definition selecting_marks :: "mark list \<Rightarrow> int list \<Rightarrow> int \<Rightarrow> mark list" where
  "selecting_marks ms possible g =
     filter (\<lambda>score. is_scoring score \<and> first_at_or_after possible (mark_frame score) g) ms"


definition running_mean :: "bool list \<Rightarrow> nat \<Rightarrow> real" where
  "running_mean arr j = real (length (filter id (take (Suc j) arr))) / real (Suc j)"

text \<open>The leaves of the cars of one team, then 13 zeros for each missing car.\<close>

definition team_values :: "frame_snapshots \<Rightarrow> string list \<Rightarrow> real list" where
  "team_values m ks =
     concat (map (\<lambda>k. case map_of m k of None \<Rightarrow> [] | Some s \<Rightarrow> get_leaf_nodes s) ks) @
     replicate (13 * (3 - length ks)) 0"

section \<open>Small traces\<close>

text \<open>
  Traces small enough to run by hand: one ball (actor 1), at most one car (actor 2), and a
  rigid-body state that is still but for its position and speed along \<open>y\<close>.
\<close>

definition spawn :: "int \<Rightarrow> string \<Rightarrow> replication" where
  "spawn a class_name = \<lparr>actor_id = a, rvalue = Spawned class_name\<rparr>"

definition body_state :: "real \<Rightarrow> real \<Rightarrow> rigid_body_state" where
  "body_state y v =
     \<lparr>angular_velocity = Some (Vector 0 0 0), linear_velocity = Some (Vector 0 v 0),
      location = Vector 0 y 0, rotation = RotQuaternion (Quaternion 0 0 0 1)\<rparr>"

definition phys_update :: "int \<Rightarrow> real \<Rightarrow> real \<Rightarrow> replication" where
  "phys_update a y v =
     \<lparr>actor_id = a,
      rvalue = Updated [\<lparr>entry_id = 42, entry_value = RigidBodyState (body_state y v)\<rparr>]\<rparr>"

definition body_snapshot :: "real \<Rightarrow> real \<Rightarrow> snapshot" where
  "body_snapshot y v =
     make_snapshot (Vector 0 0 0) (Vector 0 v 0) (Vector 0 y 0) (Quaternion 0 0 0 1)"

definition catalogue :: "string list" where
  "catalogue = [''TAGame.Ball_TA'', ''TAGame.Car_TA'']"

text \<open>The ball is updated at frames 1 and 6: frames 2 to 5 are a gap of four.\<close>

definition gap4_trace :: trace where
  "gap4_trace =
     \<lparr>frames = [[spawn 1 ''TAGame.Ball_TA''], [phys_update 1 0 1], [], [], [], [],
                [phys_update 1 7 1]],
      update_frames = [0, 100], objects = catalogue, marks = []\<rparr>"

definition gap4_physics :: physics where
  "gap4_physics = [(1, [(''ball'', body_snapshot 0 1)]), (6, [(''ball'', body_snapshot 7 1)])]"

text \<open>
  The ball is updated at frames 1 and 5: a gap of three. \<open>gap3_stored\<close> is the collection
  when the update of frame 5 has been stored, \<open>gap3_physics\<close> the final one.
\<close>

definition gap3_trace :: trace where
  "gap3_trace =
     \<lparr>frames = [[spawn 1 ''TAGame.Ball_TA''], [phys_update 1 0 1], [], [], [],
                [phys_update 1 7 1]],
      update_frames = [0, 100], objects = catalogue, marks = []\<rparr>"

definition gap3_stored :: physics where
  "gap3_stored = [(1, [(''ball'', body_snapshot 0 1)]), (5, [(''ball'', body_snapshot 7 1)])]"

definition gap3_physics :: physics where
  "gap3_physics =
     [(1, [(''ball'', body_snapshot 0 1)]), (5, [(''ball'', body_snapshot 7 1)]),
      (4, [(''ball'', body_snapshot 7 1)]), (3, [(''ball'', body_snapshot 7 1)]),
      (2, [(''ball'', body_snapshot 7 1)])]"

text \<open>A replay with a single key frame, and one whose second key frame respawns the ball.\<close>

definition single_epoch_trace :: trace where
  "single_epoch_trace =
     \<lparr>frames = [[spawn 1 ''TAGame.Ball_TA''], [phys_update 1 0 1]],
      update_frames = [0], objects = catalogue, marks = []\<rparr>"

definition two_epoch_trace :: trace where
  "two_epoch_trace =
     \<lparr>frames = [[spawn 1 ''TAGame.Ball_TA''], [phys_update 1 0 1],
                [spawn 5 ''TAGame.Ball_TA''], [phys_update 5 9 1]],
      update_frames = [0, 2], objects = catalogue, marks = []\<rparr>"

text \<open>Frame 1 updates the car only, frame 2 the ball only.\<close>

definition noball_trace :: trace where
  "noball_trace =
     \<lparr>frames = [[spawn 1 ''TAGame.Ball_TA'', spawn 2 ''TAGame.Car_TA''],
                [phys_update 2 5 5], [phys_update 1 0 1]],
      update_frames = [0, 100], objects = catalogue, marks = []\<rparr>"

definition noball_physics :: physics where
  "noball_physics =
     [(1, [(''0_car_2'', body_snapshot 5 5)]), (2, [(''ball'', body_snapshot 0 1)])]"

definition noball_feature :: "real list" where
  "noball_feature =
     [0, 0, 0, 0, 1, 0, 0, 0, 0, 0, 0, 0, 1] @ replicate 78 0"

text \<open>
  Frame 2 has no update at all, frame 3 has the ball behind the goal line; the mark of the
  goal is at frame 2.
\<close>

definition goal_trace :: trace where
  "goal_trace =
     \<lparr>frames = [[spawn 1 ''TAGame.Ball_TA''], [phys_update 1 0 1], [],
                [phys_update 1 520000 1]],
      update_frames = [0, 100], objects = catalogue,
      marks = [\<lparr>mark_frame = 2, mark_value = ''Team0Goal''\<rparr>]\<rparr>"

definition goal_physics :: physics where
  "goal_physics =
     [(1, [(''ball'', body_snapshot 0 1)]), (3, [(''ball'', body_snapshot 520000 1)]),
      (2, [(''ball'', body_snapshot 520000 1)])]"

text \<open>
  Nine empty frames, then the ball in every frame from 10 to 21: in the attacking third
  up to frame 14, behind the goal line at frame 15, at rest in the centre afterwards.
\<close>

definition kickoff_trace :: trace where
  "kickoff_trace =
     \<lparr>frames = [spawn 1 ''TAGame.Ball_TA''] # replicate 9 [] @
                replicate 5 [phys_update 1 200000 1] @ [[phys_update 1 520000 1]] @
                replicate 6 [phys_update 1 0 0],
      update_frames = [0, 100], objects = catalogue,
      marks = [\<lparr>mark_frame = 14, mark_value = ''Team0Goal''\<rparr>]\<rparr>"

definition kickoff_physics :: physics where
  "kickoff_physics =
     map (\<lambda>f. (f, [(''ball'', body_snapshot 200000 1)])) [10, 11, 12, 13, 14] @
     [(15, [(''ball'', body_snapshot 520000 1)])] @
     map (\<lambda>f. (f, [(''ball'', body_snapshot 0 0)])) [16, 17, 18, 19, 20, 21]"

text \<open>
  As \<open>kickoff_trace\<close>, but the ball attacks only at frames 14 and 15: from frame 10 to
  frame 13 it is in the centre and moves away from the goal.
\<close>

definition drop_trace :: trace where
  "drop_trace =
     \<lparr>frames = [spawn 1 ''TAGame.Ball_TA''] # replicate 9 [] @
                replicate 4 [phys_update 1 0 (- 1)] @
                [[phys_update 1 200000 1], [phys_update 1 520000 1]] @
                replicate 6 [phys_update 1 0 0],
      update_frames = [0, 100], objects = catalogue,
      marks = [\<lparr>mark_frame = 14, mark_value = ''Team0Goal''\<rparr>]\<rparr>"

definition drop_physics :: physics where
  "drop_physics =
     map (\<lambda>f. (f, [(''ball'', body_snapshot 0 (- 1))])) [10, 11, 12, 13] @
     [(14, [(''ball'', body_snapshot 200000 1)]), (15, [(''ball'', body_snapshot 520000 1)])] @
     map (\<lambda>f. (f, [(''ball'', body_snapshot 0 0)])) [16, 17, 18, 19, 20, 21]"

text \<open>
  Two collections written down as such: one with candidates at frames 510 and 1505 and
  marks at 500 and 1500, and one whose only snapshot has a single value.
\<close>

definition spec_physics :: physics where
  "spec_physics =
     [(510, [(''ball'', body_snapshot 520000 1)]),
      (1505, [(''ball'', body_snapshot (- 520000) (- 1))])]"

definition spec_marks :: "mark list" where
  "spec_marks =
     [\<lparr>mark_frame = 500, mark_value = ''Team0Goal''\<rparr>,
      \<lparr>mark_frame = 1500, mark_value = ''Team1Goal''\<rparr>]"

definition short_physics :: physics where
  "short_physics = [(0, [(''ball'', [(''location'', [(''y'', 1)])])])]"

text \<open>The update of frame 1 has a \<open>null\<close> linear velocity.\<close>

definition sleeping_trace :: trace where
  "sleeping_trace =
     \<lparr>frames = [[spawn 1 ''TAGame.Ball_TA''],
                [\<lparr>actor_id = 1, rvalue = Updated [\<lparr>entry_id = 42, entry_value =
                    RigidBodyState ((body_state 3 0)\<lparr>linear_velocity := None\<rparr>)\<rparr>]\<rparr>],
                [], [], [], [],
                [phys_update 1 7 1]],
      update_frames = [0, 100], objects = catalogue, marks = []\<rparr>"

section \<open>The small traces, run\<close>

lemma gap4_run: "get_physics gap4_trace True True True = Inr gap4_physics"
  by code_simp

lemma gap3_run: "get_physics gap3_trace True True True = Inr gap3_physics"
  by code_simp

lemma gap3_step: "interpolation gap3_stored 5 ''ball'' = Inr gap3_physics"
  by code_simp

lemma noball_run: "get_physics noball_trace True True True = Inr noball_physics"
  by code_simp

lemma noball_feature_built:
  "create_feature noball_physics 2 None = Inr (Some noball_feature)"
  "create_feature noball_physics 2 (Some 1) = Inr (Some (1 # noball_feature))"
  by code_simp+

lemma sleeping_run:
  "get_physics sleeping_trace True True True = Inr [(6, [(''ball'', body_snapshot 7 1)])]"
  by code_simp

lemma goal_run: "get_physics goal_trace True True True = Inr goal_physics"
  by code_simp

lemma goal_candidates: "possible_goals (ball_only goal_physics) = Inr [3, 2]"
  by code_simp

lemma goal_found: "find_goals goal_physics (marks goal_trace) = Inr [(3, 0)]"
  by code_simp

lemma kickoff_run: "get_physics kickoff_trace True True True = Inr kickoff_physics"
  by code_simp

lemma kickoff_goals: "find_goals kickoff_physics (marks kickoff_trace) = Inr [(15, 0)]"
  by code_simp

lemma kickoff_found: "find_kickoffs kickoff_physics (marks kickoff_trace) = Some (Inr [(0, 10)])"
  by code_simp

lemma kickoff_scan_found: "kickoff_scan kickoff_physics 0 False = Some 10"
  by code_simp

lemma kickoff_attacking: "attacking kickoff_physics 15 0 = Inr [True, True, True, True, True, True]"
  by code_simp

lemma kickoff_last: "last_kickoff kickoff_physics 15 = Inr 9"
  by code_simp

lemma kickoff_intervals:
  "poss_intervals kickoff_physics (marks kickoff_trace) 0 = Inr [(10, 15)]"
  "poss_intervals kickoff_physics (marks kickoff_trace) (19 / 20) = Inr [(10, 15)]"
  "poss_intervals kickoff_physics (marks kickoff_trace) 1 = Inr [(15, 15)]"
  by code_simp+

lemma drop_run: "get_physics drop_trace True True True = Inr drop_physics"
  by code_simp

lemma drop_goals: "find_goals drop_physics (marks drop_trace) = Inr [(15, 0)]"
  by code_simp

lemma drop_attacking:
  "attacking drop_physics 15 0 = Inr [True, True, False, False, False, False]"
  by code_simp

lemma drop_intervals: "poss_intervals drop_physics (marks drop_trace) (19 / 20) = Inr [(13, 15)]"
  by code_simp

lemma spec_goals: "find_goals spec_physics spec_marks = Inr [(510, 0), (1505, 1)]"
  by code_simp

lemma spec_candidates: "candidates spec_physics = [510, 1505]"
  by code_simp

section \<open>Stored snapshots\<close>

lemma in_update_cases:
  "(k', v') \<in> set (AList.update k v al) \<Longrightarrow> (k', v') = (k, v) \<or> (k', v') \<in> set al"
  by (induction al) (auto split: if_splits)

lemma get_snapshot_set_snapshot:
  "get_snapshot (set_snapshot out j k s) j' k' =
     (if j' = j \<and> k' = k then Some s else get_snapshot out j' k')"
  by (auto simp: get_snapshot_def set_snapshot_def update_conv' split: option.splits)

lemma stored_set_snapshot: "stored (set_snapshot out j k s) \<subseteq> insert s (stored out)"
proof
  fix s' assume "s' \<in> stored (set_snapshot out j k s)"
  then obtain i' m' k' where in_out: "(i', m') \<in> set (set_snapshot out j k s)"
    and in_m: "(k', s') \<in> set m'"
    by (auto simp: stored_def)
  define m0 where "m0 = (case map_of out j of None \<Rightarrow> [] | Some m \<Rightarrow> m)"
  have m0: "\<And>p. p \<in> set m0 \<Longrightarrow> \<exists>i. (i, m0) \<in> set out"
    by (auto simp: m0_def split: option.splits dest: map_of_SomeD)
  from in_out have "(i', m') = (j, AList.update k s m0) \<or> (i', m') \<in> set out"
    unfolding set_snapshot_def m0_def by (rule in_update_cases)
  then show "s' \<in> insert s (stored out)"
  proof
    assume "(i', m') = (j, AList.update k s m0)"
    with in_m have "(k', s') = (k, s) \<or> (k', s') \<in> set m0"
      by (auto dest: in_update_cases)
    then show ?thesis
    proof
      assume "(k', s') = (k, s)"
      then show ?thesis by simp
    next
      assume old: "(k', s') \<in> set m0"
      then obtain i0 where "(i0, m0) \<in> set out" using m0 by blast
      with old have "s' \<in> stored out" unfolding stored_def by blast
      then show ?thesis by simp
    qed
  next
    assume "(i', m') \<in> set out"
    with in_m show ?thesis by (auto simp: stored_def)
  qed
qed

lemma get_snapshot_stored: "get_snapshot out i key = Some s \<Longrightarrow> s \<in> stored out"
  by (auto simp: get_snapshot_def stored_def split: option.splits dest!: map_of_SomeD)

lemma stored_fill_gap: "fill_gap out i key ns = Inr out' \<Longrightarrow> stored out' \<subseteq> stored out"
proof (induction ns arbitrary: out)
  case Nil
  then show ?case by simp
next
  case (Cons n ns)
  then obtain s where s: "get_snapshot out i key = Some s"
    and rest: "fill_gap (set_snapshot out (i - 1 - int n) key s) i key ns = Inr out'"
    by (auto split: option.splits)
  from Cons.IH [OF rest] stored_set_snapshot [of out "i - 1 - int n" key s]
    get_snapshot_stored [OF s]
  show ?case by blast
qed

lemma stored_interpolation: "interpolation out i key = Inr out' \<Longrightarrow> stored out' \<subseteq> stored out"
  by (auto simp: interpolation_def split: if_splits option.splits dest: stored_fill_gap)

lemma find_phys_updated:
  "find_phys updated = Inr (Some phys) \<Longrightarrow> phys \<in> set (updated_physics updated)"
  by (induction updated) (auto split: if_splits attr_value.splits)

lemma stored_process_replication:
  assumes "process_replication interpolate i bs cs ts out r = Inr out'"
  shows "stored out' \<subseteq> stored out \<union>
           {s. \<exists>phys \<in> set (replication_physics r). \<exists>av lv q.
              angular_velocity phys = Some av \<and> linear_velocity phys = Some lv \<and>
              rotation phys = RotQuaternion q \<and> s = make_snapshot av lv (location phys) q}"
    (is "_ \<subseteq> _ \<union> ?new")
proof (cases "rvalue r")
  case (Updated updated)
  show ?thesis
  proof (cases "actor_id r \<in> set (bs @ cs)")
    case False
    with Updated assms show ?thesis by (auto simp: process_replication_def)
  next
    case True
    show ?thesis
    proof (cases "find_phys updated")
      case (Inl e)
      with Updated True assms show ?thesis by (auto simp: process_replication_def)
    next
      case (Inr found)
      show ?thesis
      proof (cases found)
        case None
        with Updated True Inr assms show ?thesis by (auto simp: process_replication_def)
      next
        case (Some phys)
        then have phys: "phys \<in> set (replication_physics r)"
          using Inr Updated by (simp add: replication_physics_def find_phys_updated)
        show ?thesis
        proof (cases "angular_velocity phys")
          case None
          with Updated True Inr Some assms show ?thesis by (auto simp: process_replication_def)
        next
          case av: (Some av)
          show ?thesis
          proof (cases "linear_velocity phys")
            case None
            with Updated True Inr Some av assms show ?thesis
              by (auto simp: process_replication_def)
          next
            case lv: (Some lv)
            show ?thesis
            proof (cases "rotation phys")
              case RotOther
              with Updated True Inr Some av lv assms show ?thesis
                by (auto simp: process_replication_def Let_def)
            next
              case (RotQuaternion q)
              define key where "key = (if actor_id r \<in> set bs then ''ball''
                                     else car_key ts (actor_id r))"
              define s where "s = make_snapshot av lv (location phys) q"
              have new: "s \<in> ?new"
                using phys av lv RotQuaternion by (auto simp: s_def)
              have step: "out' = set_snapshot out i key s \<or>
                          interpolation (set_snapshot out i key s) i key = Inr out'"
                using Updated True Inr Some av lv RotQuaternion assms
                by (auto simp: process_replication_def Let_def key_def s_def split: if_splits)
              have "stored (set_snapshot out i key s) \<subseteq> insert s (stored out)"
                by (rule stored_set_snapshot)
              moreover have "stored out' \<subseteq> stored (set_snapshot out i key s)"
                using step stored_interpolation by blast
              ultimately show ?thesis using new by blast
            qed
          qed
        qed
      qed
    qed
  qed
qed (use assms in \<open>auto simp: process_replication_def\<close>)

lemma stored_process_replications:
  assumes "process_replications interpolate i bs cs ts out frame = Inr out'"
  shows "stored out' \<subseteq> stored out \<union>
           {s. \<exists>phys \<in> set (concat (map replication_physics frame)). \<exists>av lv q.
              angular_velocity phys = Some av \<and> linear_velocity phys = Some lv \<and>
              rotation phys = RotQuaternion q \<and> s = make_snapshot av lv (location phys) q}"
  using assms
proof (induction frame arbitrary: out)
  case Nil
  then show ?case by simp
next
  case (Cons r rs)
  then obtain mid where first: "process_replication interpolate i bs cs ts out r = Inr mid"
    and rest: "process_replications interpolate i bs cs ts mid rs = Inr out'"
    by (auto split: sum.splits)
  from stored_process_replication [OF first] Cons.IH [OF rest]
  show ?case by auto blast+
qed

lemma output_resolve_epoch:
  "resolve_epoch tr ball cars st = Inr st' \<Longrightarrow> output st' = output st"
  by (auto simp: resolve_epoch_def Let_def split: sum.splits)

lemma stored_frame_step:
  assumes "frame_step tr ball cars interpolate i frame st = Inr st'"
    and "frame \<in> set (frames tr)"
  shows "stored (output st') \<subseteq> stored (output st) \<union> {s. extracted_from tr s}"
proof -
  define resolved where
    "resolved = (if at_boundary tr i st then resolve_epoch tr ball cars st else Inr st)"
  from assms(1) obtain mid where mid: "resolved = Inr mid"
    unfolding frame_step_def resolved_def by (cases resolved) (auto simp: resolved_def)
  then have same: "output mid = output st"
    unfolding resolved_def by (auto split: if_splits dest: output_resolve_epoch)
  from assms(1) mid obtain out' where
    run: "process_replications interpolate (int i) (ball_id mid) (car_ids mid) (teams mid)
            (output mid) frame = Inr out'"
    and st': "st' = mid\<lparr>output := out'\<rparr>"
    unfolding frame_step_def resolved_def by (auto split: sum.splits)
  have "set (concat (map replication_physics frame)) \<subseteq> set (trace_physics tr)"
    using assms(2) by (auto simp: trace_physics_def)
  with stored_process_replications [OF run] show ?thesis
    unfolding same st' extracted_from_def by auto blast
qed

lemma stored_frames_loop:
  assumes "frames_loop tr ball cars interpolate i fs st = Inr st'"
    and "set fs \<subseteq> set (frames tr)"
  shows "stored (output st') \<subseteq> stored (output st) \<union> {s. extracted_from tr s}"
  using assms
proof (induction fs arbitrary: i st)
  case Nil
  then show ?case by auto
next
  case (Cons frame rest)
  then obtain mid where first: "frame_step tr ball cars interpolate i frame st = Inr mid"
    and loop: "frames_loop tr ball cars interpolate (Suc i) rest mid = Inr st'"
    by (auto split: sum.splits)
  have "frame \<in> set (frames tr)" "set rest \<subseteq> set (frames tr)"
    using Cons.prems(2) by auto
  from stored_frame_step [OF first this(1)] Cons.IH [OF loop this(2)]
  show ?case by blast
qed

lemma stored_get_physics:
  assumes "get_physics tr ball cars interpolate = Inr physics"
  shows "stored physics \<subseteq> {s. extracted_from tr s}"
proof -
  from assms obtain st where
    "frames_loop tr ball cars interpolate 0 (frames tr) initial_extractor = Inr st"
    and "physics = output st"
    by (auto simp: get_physics_def run_extractor_def split: sum.splits if_splits list.splits)
  moreover have "stored (output initial_extractor) = {}"
    by (simp add: stored_def initial_extractor_def)
  ultimately show ?thesis
    using stored_frames_loop [of tr ball cars interpolate 0 "frames tr" initial_extractor st]
    by auto
qed

lemma leaves_make_snapshot:
  "get_leaf_nodes (make_snapshot av lv loc q) =
     [vec_x av, vec_y av, vec_z av, vec_x lv, vec_y lv, vec_z lv,
      vec_x loc, vec_y loc, vec_z loc, quat_x q, quat_y q, quat_z q, quat_w q]"
  by (simp add: get_leaf_nodes_def make_snapshot_def vector_components_def
      quaternion_components_def)

lemma extracted_leaves: "extracted_from tr s \<Longrightarrow> length (get_leaf_nodes s) = 13"
  by (auto simp: extracted_from_def leaves_make_snapshot)

text \<open>
  Claim C10. Every snapshot in the collection that \<open>get_physics\<close> returns, interpolated
  or not, was made from a rigid-body state of the trace whose angular and linear velocity
  are both present, and it holds exactly thirteen values: \<open>x\<close>, \<open>y\<close>, \<open>z\<close> of the
  angular velocity, of the linear velocity and of the location, and \<open>x\<close>, \<open>y\<close>, \<open>z\<close>,
  \<open>w\<close> of the rotation. An update whose velocity is \<open>null\<close> is skipped, never stored
  with zeros.
\<close>

theorem stored_snapshots_complete:
  assumes "get_physics tr ball cars interpolate = Inr physics"
    and "(i, m) \<in> set physics" and "(key, s) \<in> set m"
  shows "\<exists>phys \<in> set (trace_physics tr). \<exists>av lv q.
           angular_velocity phys = Some av \<and> linear_velocity phys = Some lv \<and>
           rotation phys = RotQuaternion q \<and>
           s = [(''angular_velocity'', [(''x'', vec_x av), (''y'', vec_y av), (''z'', vec_z av)]),
                (''linear_velocity'', [(''x'', vec_x lv), (''y'', vec_y lv), (''z'', vec_z lv)]),
                (''location'', [(''x'', vec_x (location phys)), (''y'', vec_y (location phys)),
                                (''z'', vec_z (location phys))]),
                (''rotation'', [(''x'', quat_x q), (''y'', quat_y q), (''z'', quat_z q),
                                (''w'', quat_w q)])]"
proof -
  have "s \<in> stored physics"
    using assms(2,3) unfolding stored_def by blast
  with stored_get_physics [OF assms(1)] have "extracted_from tr s" by blast
  then show ?thesis
    by (simp add: extracted_from_def make_snapshot_def vector_components_def
        quaternion_components_def)
qed

theorem stored_snapshots_complete_witness:
  "get_physics sleeping_trace True True True = Inr [(6, [(''ball'', body_snapshot 7 1)])] \<and>
   (\<exists>phys \<in> set (trace_physics sleeping_trace). \<exists>av lv q.
           angular_velocity phys = Some av \<and> linear_velocity phys = Some lv \<and>
           rotation phys = RotQuaternion q \<and>
           body_snapshot 7 1 =
               [(''angular_velocity'', [(''x'', vec_x av), (''y'', vec_y av), (''z'', vec_z av)]),
                (''linear_velocity'', [(''x'', vec_x lv), (''y'', vec_y lv), (''z'', vec_z lv)]),
                (''location'', [(''x'', vec_x (location phys)), (''y'', vec_y (location phys)),
                                (''z'', vec_z (location phys))]),
                (''rotation'', [(''x'', quat_x q), (''y'', quat_y q), (''z'', quat_z q),
                                (''w'', quat_w q)])])"
  using sleeping_run
    stored_snapshots_complete [OF sleeping_run, of 6 "[(''ball'', body_snapshot 7 1)]"
      "''ball''" "body_snapshot 7 1"]
  by simp

section \<open>Interpolation\<close>

lemma upt_small: "[0..<1] = [0]" "[0..<2] = [0, 1]" "[0..<3] = [0, 1, 2]"
  by (simp_all add: upt_rec)

text \<open>
  Claim C1, amended. When a snapshot for a key has just been stored at frame \<open>i > 0\<close>
  and the \<open>g\<close> frames before \<open>i\<close> have none for that key: if \<open>g\<close> is 1, 2 or 3 and
  the frame before the gap has a snapshot for the key, the interpolation gives every frame
  of the gap the snapshot of frame \<open>i\<close> and changes nothing else; if \<open>g\<close> is 4 or more
  (none of the frames \<open>i - 4\<close> to \<open>i - 1\<close> has a snapshot for the key), it changes
  nothing. At frame 0 it changes nothing.
\<close>

theorem interpolation_short_gaps:
  assumes present: "get_snapshot out i key = Some s"
    and i: "0 < i" and g: "1 \<le> g"
    and gap: "\<forall>j. i - int g \<le> j \<and> j < i \<longrightarrow> \<not> has_snapshot out j key"
  shows "(g \<le> 3 \<and> has_snapshot out (i - int g - 1) key \<longrightarrow>
            (\<exists>out'. interpolation out i key = Inr out' \<and>
               (\<forall>j k. get_snapshot out' j k =
                  (if k = key \<and> i - int g \<le> j \<and> j < i then Some s
                   else get_snapshot out j k)))) \<and>
         (4 \<le> g \<longrightarrow> interpolation out i key = Inr out) \<and>
         interpolation out 0 key = Inr out"
proof (intro conjI impI)
  show "interpolation out 0 key = Inr out"
    by (simp add: interpolation_def)
next
  assume "4 \<le> g"
  with gap have "\<not> has_snapshot out (i - 1) key" "\<not> has_snapshot out (i - 2) key"
    "\<not> has_snapshot out (i - 3) key" "\<not> has_snapshot out (i - 4) key"
    by simp_all
  then have "find_gap out i key 1 = None"
    by (simp add: find_gap.simps)
  then show "interpolation out i key = Inr out"
    by (simp add: interpolation_def)
next
  assume short: "g \<le> 3 \<and> has_snapshot out (i - int g - 1) key"
  from gap g have first: "\<not> has_snapshot out (i - 1) key" by simp
  from g short consider "g = 1" | "g = 2" | "g = 3" by linarith
  then show "\<exists>out'. interpolation out i key = Inr out' \<and>
               (\<forall>j k. get_snapshot out' j k =
                  (if k = key \<and> i - int g \<le> j \<and> j < i then Some s
                   else get_snapshot out j k))"
  proof cases
    case 1
    with short have "has_snapshot out (i - 2) key" by simp
    with first have "find_gap out i key 1 = Some 1"
      by (simp add: find_gap.simps)
    with first i have "interpolation out i key = Inr (set_snapshot out (i - 1) key s)"
      by (simp add: interpolation_def upt_small present get_snapshot_set_snapshot)
    then show ?thesis
      using 1 by (auto simp: get_snapshot_set_snapshot)
  next
    case 2
    with short gap have "has_snapshot out (i - 3) key" "\<not> has_snapshot out (i - 2) key"
      by simp_all
    with first have "find_gap out i key 1 = Some 2"
      by (simp add: find_gap.simps)
    with first i have "interpolation out i key =
        Inr (set_snapshot (set_snapshot out (i - 1) key s) (i - 2) key s)"
      by (simp add: interpolation_def upt_small present get_snapshot_set_snapshot)
    then show ?thesis
      using 2 by (auto simp: get_snapshot_set_snapshot)
  next
    case 3
    with short gap have "has_snapshot out (i - 4) key" "\<not> has_snapshot out (i - 2) key"
      "\<not> has_snapshot out (i - 3) key"
      by simp_all
    with first have "find_gap out i key 1 = Some 3"
      by (simp add: find_gap.simps)
    with first i have "interpolation out i key =
        Inr (set_snapshot (set_snapshot (set_snapshot out (i - 1) key s) (i - 2) key s)
               (i - 3) key s)"
      by (simp add: interpolation_def upt_small present get_snapshot_set_snapshot)
    then show ?thesis
      using 3 by (auto simp: get_snapshot_set_snapshot)
  qed
qed

lemma gap3_gap: "\<forall>j. 5 - int 3 \<le> j \<and> j < 5 \<longrightarrow> \<not> has_snapshot gap3_stored j ''ball''"
  by (auto simp: has_snapshot_def get_snapshot_def gap3_stored_def)

lemma gap3_present: "get_snapshot gap3_stored 5 ''ball'' = Some (body_snapshot 7 1)"
  by (simp add: get_snapshot_def gap3_stored_def)

theorem interpolation_short_gaps_witness:
  "get_physics gap3_trace True True True = Inr gap3_physics \<and>
   get_snapshot gap3_stored 5 ''ball'' = Some (body_snapshot 7 1) \<and>
   has_snapshot gap3_stored 1 ''ball'' \<and>
   \<not> has_snapshot gap3_stored 2 ''ball'' \<and> \<not> has_snapshot gap3_stored 3 ''ball'' \<and>
   \<not> has_snapshot gap3_stored 4 ''ball'' \<and>
   interpolation gap3_stored 5 ''ball'' = Inr gap3_physics \<and>
   get_snapshot gap3_physics 2 ''ball'' = Some (body_snapshot 7 1) \<and>
   get_snapshot gap3_physics 3 ''ball'' = Some (body_snapshot 7 1) \<and>
   get_snapshot gap3_physics 4 ''ball'' = Some (body_snapshot 7 1) \<and>
   get_snapshot gap3_physics 1 ''ball'' = get_snapshot gap3_stored 1 ''ball''"
proof -
  have before: "has_snapshot gap3_stored 1 ''ball''"
    by (simp add: has_snapshot_def get_snapshot_def gap3_stored_def body_snapshot_def
        make_snapshot_def)
  have "\<exists>out'. interpolation gap3_stored 5 ''ball'' = Inr out' \<and>
          (\<forall>j k. get_snapshot out' j k =
             (if k = ''ball'' \<and> 5 - int 3 \<le> j \<and> j < 5 then Some (body_snapshot 7 1)
              else get_snapshot gap3_stored j k))"
    using interpolation_short_gaps [OF gap3_present _ _ gap3_gap] before by simp
  then have filled: "get_snapshot gap3_physics j k =
             (if k = ''ball'' \<and> 5 - int 3 \<le> j \<and> j < 5 then Some (body_snapshot 7 1)
              else get_snapshot gap3_stored j k)" for j k
    unfolding gap3_step by simp
  show ?thesis
    using gap3_run gap3_present before gap3_gap gap3_step
      filled [of 2 "''ball''"] filled [of 3 "''ball''"] filled [of 4 "''ball''"]
      filled [of 1 "''ball''"]
    by simp
qed

text \<open>
  As claim C1 is stated, a gap of four frames is filled. In \<open>gap4_trace\<close> the ball has
  snapshots at frames 1 and 6 and none of the frames 2 to 5 is filled.
\<close>

theorem gap_of_four_counterexample:
  "get_physics gap4_trace True True True = Inr gap4_physics \<and>
   has_snapshot gap4_physics 1 ''ball'' \<and> has_snapshot gap4_physics 6 ''ball'' \<and>
   \<not> has_snapshot gap4_physics 2 ''ball'' \<and> \<not> has_snapshot gap4_physics 3 ''ball'' \<and>
   \<not> has_snapshot gap4_physics 4 ''ball'' \<and> \<not> has_snapshot gap4_physics 5 ''ball''"
  using gap4_run
  by (simp add: has_snapshot_def get_snapshot_def gap4_physics_def body_snapshot_def
      make_snapshot_def)

section \<open>Epoch boundaries\<close>

text \<open>
  Claim C7 says that every epoch boundary is visited. The guard of the extractor compares
  the pointer with \<open>len(update_frames) - 1\<close>, so the last boundary is never visited: with
  a single key frame no actor id is ever resolved and the collection stays empty, and in
  \<open>two_epoch_trace\<close> the ball respawned at the second key frame (actor 5) is never
  recognised, so its update at frame 3 is dropped.
\<close>

theorem last_boundary_skipped:
  "\<not> at_boundary single_epoch_trace 0 initial_extractor \<and>
   get_physics single_epoch_trace True True True = Inr [] \<and>
   get_physics two_epoch_trace True True True = Inr [(1, [(''ball'', body_snapshot 0 1)])]"
  by code_simp

section \<open>The feature builder\<close>

lemma create_feature_built:
  assumes "create_feature physics frame scorer = Inr (Some v)"
  shows "\<exists>frame' m ball f0 f1. frame \<le> frame' \<and> map_of physics frame' = Some m \<and>
           leaves_of m [''ball''] = Inr ball \<and>
           length (team_keys CHR ''0'' (map fst m)) \<le> TEAM_SIZE \<and>
           team_feature m (team_keys CHR ''0'' (map fst m)) = Inr f0 \<and>
           length (team_keys CHR ''1'' (map fst m)) \<le> TEAM_SIZE \<and>
           team_feature m (team_keys CHR ''1'' (map fst m)) = Inr f1 \<and>
           check_length (scorer_label scorer @ ball @ f0 @ f1) = Some v"
  using assms
proof (induction physics frame scorer rule: create_feature.induct)
  case (1 physics frame scorer)
  from "1.prems" have ok: "scorer_ok scorer"
    by (subst (asm) create_feature.simps) (auto split: if_splits)
  from "1.prems" ok obtain m where m: "map_of physics frame = Some m"
    by (subst (asm) create_feature.simps) (auto split: option.splits)
  define objs where "objs = map fst m"
  define team0 where "team0 = team_keys CHR ''0'' objs"
  define team1 where "team1 = team_keys CHR ''1'' objs"
  have unfolded: "create_feature physics frame scorer =
      (if ''ball'' \<notin> set objs then Inr None
       else if [] \<in> set objs then Inl IndexError
       else (case leaves_of m [''ball''] of
           Inl e \<Rightarrow> Inl e
         | Inr ball \<Rightarrow>
             (if length team0 > TEAM_SIZE then create_feature physics (frame + 1) scorer
              else (case team_feature m team0 of
                  Inl e \<Rightarrow> Inl e
                | Inr f0 \<Rightarrow>
                    (if length team1 > TEAM_SIZE
                     then create_feature physics (frame + 1) scorer
                     else (case team_feature m team1 of
                        Inl e \<Rightarrow> Inl e
                      | Inr f1 \<Rightarrow>
                          Inr (check_length (scorer_label scorer @ ball @ f0 @ f1))))))))"
    unfolding team0_def team1_def objs_def
    using ok m by (subst create_feature.simps) (simp add: Let_def del: leaves_of.simps)
  from "1.prems" have ball_in: "''ball'' \<in> set objs" and nonempty: "[] \<notin> set objs"
    unfolding unfolded by (auto split: if_splits)
  from "1.prems" ball_in nonempty obtain ball where ball: "leaves_of m [''ball''] = Inr ball"
    unfolding unfolded by (auto split: sum.splits)
  have later: "\<exists>frame' m ball f0 f1. frame \<le> frame' \<and> map_of physics frame' = Some m \<and>
           leaves_of m [''ball''] = Inr ball \<and>
           length (team_keys CHR ''0'' (map fst m)) \<le> TEAM_SIZE \<and>
           team_feature m (team_keys CHR ''0'' (map fst m)) = Inr f0 \<and>
           length (team_keys CHR ''1'' (map fst m)) \<le> TEAM_SIZE \<and>
           team_feature m (team_keys CHR ''1'' (map fst m)) = Inr f1 \<and>
           check_length (scorer_label scorer @ ball @ f0 @ f1) = Some v"
    if "P \<Longrightarrow> \<exists>frame' m ball f0 f1. frame + 1 \<le> frame' \<and> map_of physics frame' = Some m \<and>
           leaves_of m [''ball''] = Inr ball \<and>
           length (team_keys CHR ''0'' (map fst m)) \<le> TEAM_SIZE \<and>
           team_feature m (team_keys CHR ''0'' (map fst m)) = Inr f0 \<and>
           length (team_keys CHR ''1'' (map fst m)) \<le> TEAM_SIZE \<and>
           team_feature m (team_keys CHR ''1'' (map fst m)) = Inr f1 \<and>
           check_length (scorer_label scorer @ ball @ f0 @ f1) = Some v" and P for P
  proof -
    from that obtain frame' m ball f0 f1 where "frame + 1 \<le> frame'" and
      rest: "map_of physics frame' = Some m \<and>
           leaves_of m [''ball''] = Inr ball \<and>
           length (team_keys CHR ''0'' (map fst m)) \<le> TEAM_SIZE \<and>
           team_feature m (team_keys CHR ''0'' (map fst m)) = Inr f0 \<and>
           length (team_keys CHR ''1'' (map fst m)) \<le> TEAM_SIZE \<and>
           team_feature m (team_keys CHR ''1'' (map fst m)) = Inr f1 \<and>
           check_length (scorer_label scorer @ ball @ f0 @ f1) = Some v"
      by blast
    then have "frame \<le> frame'" by simp
    with rest show ?thesis by blast
  qed
  show ?case
  proof (cases "length team0 > TEAM_SIZE")
    case True
    then have next_frame: "create_feature physics (frame + 1) scorer = Inr (Some v)"
      using "1.prems" ball_in nonempty ball unfolding unfolded by simp
    show ?thesis
      by (rule later [OF "1.IH"(1) [OF _ m objs_def _ _ team0_def team1_def ball True next_frame]])
        (use ok ball_in nonempty in simp_all)
  next
    case small0: False
    with "1.prems" ball_in nonempty ball obtain f0 where f0: "team_feature m team0 = Inr f0"
      unfolding unfolded by (auto split: sum.splits)
    show ?thesis
    proof (cases "length team1 > TEAM_SIZE")
      case True
      then have next_frame: "create_feature physics (frame + 1) scorer = Inr (Some v)"
        using "1.prems" ball_in nonempty ball small0 f0 unfolding unfolded by simp
      show ?thesis
        by (rule later [OF "1.IH"(2) [OF _ m objs_def _ _ team0_def team1_def ball small0 f0 True next_frame]])
          (use ok ball_in nonempty in simp_all)
    next
      case small1: False
      with "1.prems" ball_in nonempty ball small0 f0 obtain f1 where
        f1: "team_feature m team1 = Inr f1"
        and v: "check_length (scorer_label scorer @ ball @ f0 @ f1) = Some v"
        unfolding unfolded by (auto split: sum.splits)
      show ?thesis
        using m ball small0 f0 small1 f1 v
        unfolding team0_def team1_def objs_def
        by (intro exI [of _ frame] exI [of _ m] exI [of _ ball] exI [of _ f0] exI [of _ f1]) simp
    qed
  qed
qed

lemma create_feature_present:
  assumes "scorer_ok scorer" and "map_of physics frame = Some m"
  shows "create_feature physics frame scorer =
      (if ''ball'' \<notin> set (map fst m) then Inr None
       else if [] \<in> set (map fst m) then Inl IndexError
       else (case leaves_of m [''ball''] of
           Inl e \<Rightarrow> Inl e
         | Inr ball \<Rightarrow>
             (if length (team_keys CHR ''0'' (map fst m)) > TEAM_SIZE
              then create_feature physics (frame + 1) scorer
              else (case team_feature m (team_keys CHR ''0'' (map fst m)) of
                  Inl e \<Rightarrow> Inl e
                | Inr f0 \<Rightarrow>
                    (if length (team_keys CHR ''1'' (map fst m)) > TEAM_SIZE
                     then create_feature physics (frame + 1) scorer
                     else (case team_feature m (team_keys CHR ''1'' (map fst m)) of
                        Inl e \<Rightarrow> Inl e
                      | Inr f1 \<Rightarrow>
                          Inr (check_length (scorer_label scorer @ ball @ f0 @ f1))))))))"
  using assms by (subst create_feature.simps) (simp add: Let_def del: leaves_of.simps)

lemma leaves_of_total:
  assumes "set items \<subseteq> fst ` set m"
  shows "leaves_of m items =
           Inr (concat (map (\<lambda>k. case map_of m k of None \<Rightarrow> [] | Some s \<Rightarrow> get_leaf_nodes s) items))"
  using assms
proof (induction items)
  case Nil
  then show ?case by simp
next
  case (Cons k ks)
  then have "k \<in> fst ` set m" by simp
  then obtain s where "map_of m k = Some s"
    by (metis map_of_eq_None_iff not_None_eq)
  with Cons show ?case by simp
qed

lemma team_keys_subset: "set (team_keys c objs) \<subseteq> set objs"
  by (auto simp: team_keys_def)

lemma team_feature_total:
  "team_feature m (team_keys c (map fst m)) = Inr (team_values m (team_keys c (map fst m)))"
proof -
  have "set (team_keys c (map fst m)) \<subseteq> fst ` set m"
    using team_keys_subset [of c "map fst m"] by simp
  from leaves_of_total [OF this] show ?thesis
    by (simp add: team_feature_def team_values_def TEAM_SIZE_def)
qed

lemma create_feature_direct:
  assumes ok: "scorer = None \<or> scorer = Some 0 \<or> scorer = Some 1"
    and m: "map_of physics frame = Some m"
    and ball: "map_of m ''ball'' = Some b" and keys: "[] \<notin> fst ` set m"
    and small: "length (team_keys CHR ''0'' (map fst m)) \<le> 3"
      "length (team_keys CHR ''1'' (map fst m)) \<le> 3"
  shows "create_feature physics frame scorer =
           (let vec = (case scorer of None \<Rightarrow> [] | Some t \<Rightarrow> [of_int t]) @ get_leaf_nodes b @
                  team_values m (team_keys CHR ''0'' (map fst m)) @
                  team_values m (team_keys CHR ''1'' (map fst m))
            in if length vec = 91 \<or> length vec = 92 then Inr (Some vec) else Inr None)"
proof -
  from ok have sok: "scorer_ok scorer" by (auto simp: scorer_ok_def)
  from ball have in_keys: "''ball'' \<in> set (map fst m)"
    by (metis map_of_eq_None_iff option.distinct(1) set_map)
  have leaves: "leaves_of m [''ball''] = Inr (get_leaf_nodes b)"
    using ball by simp
  show ?thesis
    unfolding create_feature_present [OF sok m]
    using in_keys keys small leaves
    by (simp add: team_feature_total TEAM_SIZE_def check_length_def scorer_label_def Let_def
        del: leaves_of.simps)
qed

lemma leaves_of_length:
  assumes "\<And>k s. (k, s) \<in> set m \<Longrightarrow> length (get_leaf_nodes s) = 13"
    and "leaves_of m items = Inr vs"
  shows "length vs = 13 * length items"
  using assms(2)
proof (induction items arbitrary: vs)
  case Nil
  then show ?case by simp
next
  case (Cons item items)
  then obtain s rest where s: "map_of m item = Some s"
    and rest: "leaves_of m items = Inr rest" and vs: "vs = get_leaf_nodes s @ rest"
    by (auto split: option.splits sum.splits)
  have "length (get_leaf_nodes s) = 13"
    using s assms(1) by (auto dest: map_of_SomeD)
  with Cons.IH [OF rest] vs show ?case by simp
qed

lemma team_feature_length:
  assumes "\<And>k s. (k, s) \<in> set m \<Longrightarrow> length (get_leaf_nodes s) = 13"
    and "team_feature m sublist = Inr vs" and "length sublist \<le> TEAM_SIZE"
  shows "length vs = 39"
proof -
  from assms(2) obtain ws where ws: "leaves_of m sublist = Inr ws"
    and vs: "vs = ws @ replicate (13 * (TEAM_SIZE - length sublist)) 0"
    by (auto simp: team_feature_def split: sum.splits)
  have "length ws = 13 * length sublist"
    using assms(1) ws by (rule leaves_of_length)
  with vs assms(3) show ?thesis by (simp add: TEAM_SIZE_def)
qed

lemma check_length_Some: "check_length xs = Some v \<Longrightarrow> v = xs \<and> (length v = 91 \<or> length v = 92)"
  by (auto simp: check_length_def split: if_splits)

lemma create_feature_relabel:
  assumes wf: "\<forall>(i, m) \<in> set physics. \<forall>(k, s) \<in> set m. length (get_leaf_nodes s) = 13"
    and t: "t = 0 \<or> t = 1" and none: "scorer = None"
  shows "create_feature physics frame (Some t) =
           (case create_feature physics frame scorer of
              Inl e \<Rightarrow> Inl e
            | Inr None \<Rightarrow> Inr None
            | Inr (Some u) \<Rightarrow> Inr (Some (of_int t # u)))"
  using none wf
proof (induction physics frame scorer rule: create_feature.induct)
  case (1 physics' frame scorer)
  note none = "1.prems"(1) and wf = "1.prems"(2)
  have ok: "scorer_ok scorer" "scorer_ok (Some t)"
    using none t by (auto simp: scorer_ok_def)
  show ?case
  proof (cases "map_of physics' frame")
    case None
    then show ?thesis
      using ok by (simp add: create_feature.simps)
  next
    case (Some m)
    define team0 where "team0 = team_keys CHR ''0'' (map fst m)"
    define team1 where "team1 = team_keys CHR ''1'' (map fst m)"
    note unf = create_feature_present [OF ok(1) Some] create_feature_present [OF ok(2) Some]
    show ?thesis
    proof (cases "''ball'' \<notin> set (map fst m) \<or> [] \<in> set (map fst m)")
      case True
      then show ?thesis unfolding unf by auto
    next
      case False
      then have ball_in: "''ball'' \<in> set (map fst m)" and keys: "[] \<notin> set (map fst m)"
        by auto
      then obtain b where b: "map_of m ''ball'' = Some b"
        by (metis map_of_eq_None_iff not_None_eq set_map)
      have leaves: "leaves_of m [''ball''] = Inr (get_leaf_nodes b)" using b by simp
      show ?thesis
      proof (cases "length team0 > TEAM_SIZE")
        case True
        from "1.IH"(1) [OF _ Some refl _ _ team0_def team1_def leaves True none wf]
          ok ball_in keys
        have "create_feature physics' (frame + 1) (Some t) =
           (case create_feature physics' (frame + 1) scorer of
              Inl e \<Rightarrow> Inl e
            | Inr None \<Rightarrow> Inr None
            | Inr (Some u) \<Rightarrow> Inr (Some (of_int t # u)))"
          by simp
        then show ?thesis
          unfolding unf using ball_in keys leaves True
          by (simp add: team0_def del: leaves_of.simps)
      next
        case small0: False
        have f0: "team_feature m team0 = Inr (team_values m team0)"
          unfolding team0_def by (rule team_feature_total)
        show ?thesis
        proof (cases "length team1 > TEAM_SIZE")
          case True
          from "1.IH"(2) [OF _ Some refl _ _ team0_def team1_def leaves small0 f0 True none wf]
            ok ball_in keys
          have "create_feature physics' (frame + 1) (Some t) =
             (case create_feature physics' (frame + 1) scorer of
                Inl e \<Rightarrow> Inl e
              | Inr None \<Rightarrow> Inr None
              | Inr (Some u) \<Rightarrow> Inr (Some (of_int t # u)))"
            by simp
          then show ?thesis
            unfolding unf using ball_in keys leaves small0 f0 True
            by (simp add: team0_def team1_def del: leaves_of.simps)
        next
          case small1: False
          have f1: "team_feature m team1 = Inr (team_values m team1)"
            unfolding team1_def by (rule team_feature_total)
          have "(frame, m) \<in> set physics'" using Some by (rule map_of_SomeD)
          with wf have wf_m: "\<And>k s. (k, s) \<in> set m \<Longrightarrow> length (get_leaf_nodes s) = 13"
            by auto
          have "length (get_leaf_nodes b) = 13"
            using wf_m b by (auto dest: map_of_SomeD)
          moreover have "length team0 \<le> TEAM_SIZE" "length team1 \<le> TEAM_SIZE"
            using small0 small1 by simp_all
          note sizes = this
          have "length (team_values m team0) = 39"
            using wf_m f0 sizes(1) by (rule team_feature_length)
          moreover have "length (team_values m team1) = 39"
            using wf_m f1 sizes(2) by (rule team_feature_length)
          ultimately show ?thesis
            unfolding unf using ball_in keys leaves small0 small1 f0 f1 none
            by (simp add: team0_def [symmetric] team1_def [symmetric] check_length_def
                scorer_label_def del: leaves_of.simps)
        qed
      qed
    qed
  qed
qed

lemma create_feature_label:
  assumes "\<forall>(i, m) \<in> set physics. \<forall>(k, s) \<in> set m. length (get_leaf_nodes s) = 13"
    and "t = 0 \<or> t = 1"
  shows "create_feature physics frame (Some t) =
           (case create_feature physics frame None of
              Inl e \<Rightarrow> Inl e
            | Inr None \<Rightarrow> Inr None
            | Inr (Some u) \<Rightarrow> Inr (Some (of_int t # u)))"
  using assms create_feature_relabel [where scorer = None] by blast

lemma built_wf:
  assumes "get_physics tr ball cars interpolate = Inr physics"
  shows "\<forall>(i, m) \<in> set physics. \<forall>(k, s) \<in> set m. length (get_leaf_nodes s) = 13"
proof -
  have "length (get_leaf_nodes s) = 13" if "(i, m) \<in> set physics" "(k, s) \<in> set m" for i m k s
  proof -
    from that have "s \<in> stored physics" unfolding stored_def by blast
    with stored_get_physics [OF assms] show ?thesis by (auto dest: extracted_leaves)
  qed
  then show ?thesis by blast
qed

lemma create_feature_scorer:
  assumes "create_feature physics frame scorer = Inr r"
  shows "scorer = None \<or> scorer = Some 0 \<or> scorer = Some 1"
proof (rule ccontr)
  assume "\<not> (scorer = None \<or> scorer = Some 0 \<or> scorer = Some 1)"
  then have "\<not> scorer_ok scorer" by (auto simp: scorer_ok_def split: option.splits)
  then have "create_feature physics frame scorer = Inl ValueError"
    by (simp add: create_feature.simps)
  with assms show False by simp
qed

text \<open>
  Claim C8. A vector that \<open>create_feature\<close> returns has length 91 or 92, whatever the
  collection, and a scorer that was given is its first value. On a collection that
  \<open>get_physics\<close> built, the length is exactly 91 without a scorer and exactly 92 with
  one, and the vector with the scorer is the scorer followed by the vector without it. On
  a frame that has a ball and at most three cars a side, in any collection, the call
  assembles the scorer (when given), the ball, and each team's cars and padding; it
  returns that vector when its length is 91 or 92 and \<open>None\<close> otherwise, and raises
  nothing.
\<close>

theorem feature_length:
  "(\<forall>v. create_feature physics frame scorer = Inr (Some v) \<longrightarrow>
      (length v = 91 \<or> length v = 92) \<and>
      (\<forall>t. scorer = Some t \<longrightarrow> (t = 0 \<or> t = 1) \<and> hd v = of_int t) \<and>
      (\<forall>tr ball cars interpolate. get_physics tr ball cars interpolate = Inr physics \<longrightarrow>
         length v = (if scorer = None then 91 else 92) \<and>
         (\<forall>t. scorer = Some t \<longrightarrow> create_feature physics frame None = Inr (Some (tl v))))) \<and>
   (\<forall>tr ball cars interpolate u t. get_physics tr ball cars interpolate = Inr physics \<and>
       create_feature physics frame None = Inr (Some u) \<and> (t = 0 \<or> t = 1) \<longrightarrow>
       create_feature physics frame (Some t) = Inr (Some (of_int t # u))) \<and>
   (\<forall>m b. (scorer = None \<or> scorer = Some 0 \<or> scorer = Some 1) \<and>
       map_of physics frame = Some m \<and> map_of m ''ball'' = Some b \<and> [] \<notin> fst ` set m \<and>
       length (team_keys CHR ''0'' (map fst m)) \<le> 3 \<and>
       length (team_keys CHR ''1'' (map fst m)) \<le> 3 \<longrightarrow>
       create_feature physics frame scorer =
         (let vec = (case scorer of None \<Rightarrow> [] | Some t \<Rightarrow> [of_int t]) @ get_leaf_nodes b @
                team_values m (team_keys CHR ''0'' (map fst m)) @
                team_values m (team_keys CHR ''1'' (map fst m))
          in if length vec = 91 \<or> length vec = 92 then Inr (Some vec) else Inr None))"
proof (intro conjI allI impI)
  fix v assume v: "create_feature physics frame scorer = Inr (Some v)"
  from create_feature_built [OF v] obtain frame' m ball f0 f1 where
    m: "map_of physics frame' = Some m"
    and ball: "leaves_of m [''ball''] = Inr ball"
    and f0: "length (team_keys CHR ''0'' (map fst m)) \<le> TEAM_SIZE"
      "team_feature m (team_keys CHR ''0'' (map fst m)) = Inr f0"
    and f1: "length (team_keys CHR ''1'' (map fst m)) \<le> TEAM_SIZE"
      "team_feature m (team_keys CHR ''1'' (map fst m)) = Inr f1"
    and checked: "check_length (scorer_label scorer @ ball @ f0 @ f1) = Some v"
    by blast
  from check_length_Some [OF checked] have v_eq: "v = scorer_label scorer @ ball @ f0 @ f1"
    and either: "length v = 91 \<or> length v = 92" by blast+
  show "length v = 91 \<or> length v = 92" by (rule either)
  {
    fix t assume t: "scorer = Some t"
    with create_feature_scorer [OF v] show "t = 0 \<or> t = 1" by simp
    from t show "hd v = of_int t" unfolding v_eq by (simp add: scorer_label_def)
  }
  {
    fix tr ball' cars interpolate
    assume run: "get_physics tr ball' cars interpolate = Inr physics"
    note wf = built_wf [OF run]
    have wf_m: "length (get_leaf_nodes s) = 13" if "(k, s) \<in> set m" for k s
    proof -
      have "(frame', m) \<in> set physics" using m by (rule map_of_SomeD)
      with wf that show ?thesis by auto
    qed
    have "length ball = 13"
      using leaves_of_length [OF wf_m ball] by simp
    moreover have "length f0 = 39" using wf_m f0(2,1) by (rule team_feature_length)
    moreover have "length f1 = 39" using wf_m f1(2,1) by (rule team_feature_length)
    ultimately show "length v = (if scorer = None then 91 else 92)"
      unfolding v_eq by (cases scorer) (simp_all add: scorer_label_def)
    fix t assume t: "scorer = Some t"
    with create_feature_scorer [OF v] have "t = 0 \<or> t = 1" by simp
    from create_feature_label [OF wf this, of frame] v t
    show "create_feature physics frame None = Inr (Some (tl v))"
      by (auto split: sum.splits option.splits)
  }
next
  fix tr ball cars interpolate u and t :: int
  assume "get_physics tr ball cars interpolate = Inr physics \<and>
       create_feature physics frame None = Inr (Some u) \<and> (t = 0 \<or> t = 1)"
  then have run: "get_physics tr ball cars interpolate = Inr physics"
    and u: "create_feature physics frame None = Inr (Some u)" and t: "t = 0 \<or> t = 1"
    by blast+
  from create_feature_label [OF built_wf [OF run] t, of frame] u
  show "create_feature physics frame (Some t) = Inr (Some (of_int t # u))" by simp
next
  fix m b
  assume "(scorer = None \<or> scorer = Some 0 \<or> scorer = Some 1) \<and>
       map_of physics frame = Some m \<and> map_of m ''ball'' = Some b \<and> [] \<notin> fst ` set m \<and>
       length (team_keys CHR ''0'' (map fst m)) \<le> 3 \<and>
       length (team_keys CHR ''1'' (map fst m)) \<le> 3"
  then show "create_feature physics frame scorer =
         (let vec = (case scorer of None \<Rightarrow> [] | Some t \<Rightarrow> [of_int t]) @ get_leaf_nodes b @
                team_values m (team_keys CHR ''0'' (map fst m)) @
                team_values m (team_keys CHR ''1'' (map fst m))
          in if length vec = 91 \<or> length vec = 92 then Inr (Some vec) else Inr None)"
    by (intro create_feature_direct) blast+
qed


theorem feature_length_witness:
  "create_feature noball_physics 2 None = Inr (Some noball_feature) \<and>
   get_physics noball_trace True True True = Inr noball_physics \<and>
   length noball_feature = 91 \<and>
   create_feature noball_physics 2 (Some 1) = Inr (Some (1 # noball_feature)) \<and>
   length (1 # noball_feature) = 92 \<and>
   map_of short_physics 0 = Some [(''ball'', [(''location'', [(''y'', 1)])])] \<and>
   create_feature short_physics 0 None = Inr None \<and>
   create_feature short_physics 0 (Some 1) = Inr None"
proof -
  note built = feature_length [of noball_physics 2 None]
  have len: "length noball_feature = 91"
    using built noball_feature_built(1) noball_run by auto
  have labelled: "create_feature noball_physics 2 (Some 1) = Inr (Some (1 # noball_feature))"
  proof -
    from built have "\<forall>tr ball cars interpolate u t.
        get_physics tr ball cars interpolate = Inr noball_physics \<and>
        create_feature noball_physics 2 None = Inr (Some u) \<and> (t = 0 \<or> t = 1) \<longrightarrow>
        create_feature noball_physics 2 (Some t) = Inr (Some (of_int t # u))"
      by (elim conjE)
    with noball_run noball_feature_built(1)
    have "create_feature noball_physics 2 (Some 1) = Inr (Some (of_int 1 # noball_feature))"
      by blast
    then show ?thesis by simp
  qed
  have m: "map_of short_physics 0 = Some [(''ball'', [(''location'', [(''y'', 1)])])]"
    by (simp add: short_physics_def)
  have short: "create_feature short_physics 0 sc = Inr None"
    if "sc = None \<or> sc = Some 1" for sc
  proof -
    have "\<forall>m b. (sc = None \<or> sc = Some 0 \<or> sc = Some 1) \<and>
       map_of short_physics 0 = Some m \<and> map_of m ''ball'' = Some b \<and> [] \<notin> fst ` set m \<and>
       length (team_keys CHR ''0'' (map fst m)) \<le> 3 \<and>
       length (team_keys CHR ''1'' (map fst m)) \<le> 3 \<longrightarrow>
       create_feature short_physics 0 sc =
         (let vec = (case sc of None \<Rightarrow> [] | Some t \<Rightarrow> [of_int t]) @ get_leaf_nodes b @
                team_values m (team_keys CHR ''0'' (map fst m)) @
                team_values m (team_keys CHR ''1'' (map fst m))
          in if length vec = 91 \<or> length vec = 92 then Inr (Some vec) else Inr None)"
      using feature_length [of short_physics 0 sc] by (elim conjE)
    from this [rule_format, of "[(''ball'', [(''location'', [(''y'', 1)])])]"
        "[(''location'', [(''y'', 1)])]"] m that
    show ?thesis
      by (auto simp: team_keys_def team_values_def get_leaf_nodes_def Let_def)
  qed
  show ?thesis
    using noball_feature_built(1) noball_run len labelled m short [of None] short [of "Some 1"]
    by simp
qed


text \<open>
  Claim C2, amended. On a frame that is in the collection and has no ball,
  \<open>create_feature\<close> returns \<open>None\<close>; it does not look at the next frame.
\<close>

theorem create_feature_no_ball:
  assumes "map_of physics frame = Some phys_snapshot"
    and "map_of phys_snapshot ''ball'' = None"
    and "scorer_ok scorer"
  shows "create_feature physics frame scorer = Inr None"
proof -
  have "''ball'' \<notin> set (map fst phys_snapshot)"
    using assms(2) by (metis map_of_eq_None_iff set_map)
  then show ?thesis
    using assms(1,3) by (simp add: create_feature.simps)
qed

theorem create_feature_no_ball_witness:
  "map_of noball_physics 1 = Some [(''0_car_2'', body_snapshot 5 5)] \<and>
   map_of [(''0_car_2'', body_snapshot 5 5)] ''ball'' = None \<and> scorer_ok (Some 0) \<and>
   create_feature noball_physics 1 (Some 0) = Inr None"
proof -
  have a: "map_of noball_physics 1 = Some [(''0_car_2'', body_snapshot 5 5)]"
    by (simp add: noball_physics_def)
  have b: "map_of [(''0_car_2'', body_snapshot 5 5)] ''ball'' = None" by simp
  have c: "scorer_ok (Some 0)" by (simp add: scorer_ok_def)
  from a b c create_feature_no_ball [OF a b c] show ?thesis by simp
qed

text \<open>
  As claim C2 is stated, the call on such a frame returns the feature of the next frame.
  In \<open>noball_trace\<close> frame 1 has a car and no ball, frame 2 has the ball: the call on
  frame 1 returns \<open>None\<close>, the call on frame 2 a vector.
\<close>

theorem no_ball_counterexample:
  "get_physics noball_trace True True True = Inr noball_physics \<and>
   map_of noball_physics 1 = Some [(''0_car_2'', body_snapshot 5 5)] \<and>
   create_feature noball_physics 1 None = Inr None \<and>
   create_feature noball_physics 2 None = Inr (Some noball_feature)"
  using noball_run noball_feature_built(1) by (simp add: noball_physics_def create_feature.simps scorer_ok_def)

text \<open>
  Claim C9. A frame with no entry in the snapshot collection makes \<open>create_feature\<close>
  raise: the lookup \<open>self.physics[frame]\<close> fails with \<open>KeyError\<close>. Neither the
  \<open>return None\<close> of a frame without a ball nor the step to the next frame is reached.
  The only statement before the lookup is the check of the scorer, which rejects a scorer
  other than 0 and 1 with \<open>ValueError\<close>; so the call raises in every case, and raises
  the lookup error for every scorer the function accepts.
\<close>

theorem create_feature_missing_frame:
  assumes "map_of physics frame = None"
  shows "create_feature physics frame scorer =
           Inl (if scorer_ok scorer then KeyError else ValueError)"
  using assms by (simp add: create_feature.simps)

theorem create_feature_missing_frame_witness:
  "map_of noball_physics 7 = None \<and> scorer_ok (Some 1) \<and>
   create_feature noball_physics 7 (Some 1) = Inl KeyError \<and>
   create_feature noball_physics 7 None = Inl KeyError"
proof -
  have absent: "map_of noball_physics 7 = None"
    by (simp add: noball_physics_def)
  have ok: "scorer_ok (Some 1)" "scorer_ok None"
    by (simp_all add: scorer_ok_def)
  show ?thesis
    using absent ok create_feature_missing_frame [OF absent, of "Some 1"]
      create_feature_missing_frame [OF absent, of None]
    by simp
qed

section \<open>Goals\<close>

lemma first_goal_Some:
  assumes "first_goal frame possible = Some g"
  shows "\<exists>pre post. possible = pre @ g # post \<and> (\<forall>c \<in> set pre. c < frame) \<and> frame \<le> g"
  using assms
proof (induction possible)
  case Nil
  then show ?case by simp
next
  case (Cons c cs)
  show ?case
  proof (cases "frame \<le> c")
    case True
    with Cons.prems have "g = c" by simp
    with True show ?thesis by (intro exI [of _ "[]"] exI [of _ cs]) simp
  next
    case False
    with Cons.prems have "first_goal frame cs = Some g" by simp
    from Cons.IH [OF this] obtain pre post where
      "cs = pre @ g # post" "\<forall>c \<in> set pre. c < frame" "frame \<le> g" by blast
    with False show ?thesis
      by (intro exI [of _ "c # pre"] exI [of _ post]) auto
  qed
qed

lemma first_goal_smallest:
  assumes "first_goal frame possible = Some g" and "sorted possible"
    and "c \<in> set possible" and "frame \<le> c"
  shows "g \<le> c"
proof -
  from first_goal_Some [OF assms(1)] obtain pre post where
    split: "possible = pre @ g # post" and pre: "\<forall>c \<in> set pre. c < frame" by blast
  from assms(3,4) pre split have "c = g \<or> c \<in> set post" by auto
  moreover have "\<forall>d \<in> set post. g \<le> d"
    using assms(2) unfolding split by (auto simp: sorted_append)
  ultimately show ?thesis by auto
qed

lemma goal_marks_keys:
  "fst ` set (goal_marks scores possible acc) =
     fst ` set acc \<union> {g. \<exists>score \<in> set scores. first_goal (mark_frame score) possible = Some g}"
proof (induction scores arbitrary: acc)
  case Nil
  then show ?case by simp
next
  case (Cons score scores)
  show ?case
  proof (cases "first_goal (mark_frame score) possible")
    case None
    with Cons.IH [of acc] show ?thesis by auto
  next
    case (Some g)
    with Cons.IH [of "AList.update g (scoring_team score) acc"] show ?thesis
      by (auto simp: dom_update)
  qed
qed

lemma goal_marks_label:
  "map_of (goal_marks scores possible acc) g =
     (if filter (\<lambda>score. first_goal (mark_frame score) possible = Some g) scores = []
      then map_of acc g
      else Some (scoring_team
             (last (filter (\<lambda>score. first_goal (mark_frame score) possible = Some g) scores))))"
proof (induction scores arbitrary: acc)
  case Nil
  then show ?case by simp
next
  case (Cons score scores)
  show ?case
  proof (cases "first_goal (mark_frame score) possible")
    case None
    with Cons.IH [of acc] show ?thesis by simp
  next
    case (Some g')
    with Cons.IH [of "AList.update g' (scoring_team score) acc"] show ?thesis
      by (auto simp: update_conv')
  qed
qed


lemma goal_marks_distinct:
  "distinct (map fst acc) \<Longrightarrow> distinct (map fst (goal_marks scores possible acc))"
  by (induction scores arbitrary: acc) (auto simp: distinct_update split: option.splits)

lemma starts_with_iff: "starts_with p s \<longleftrightarrow> (\<exists>post. s = p @ post)"
  by (induction p s rule: starts_with.induct) auto

lemma str_contains_iff: "str_contains sub s \<longleftrightarrow> (\<exists>pre post. s = pre @ sub @ post)"
proof (induction s)
  case Nil
  then show ?case by auto
next
  case (Cons c cs)
  have "(\<exists>pre post. c # cs = pre @ sub @ post) \<longleftrightarrow>
          (\<exists>post. c # cs = sub @ post) \<or> (\<exists>pre post. cs = pre @ sub @ post)"
  proof
    assume "\<exists>pre post. c # cs = pre @ sub @ post"
    then obtain pre post where eq: "c # cs = pre @ sub @ post" by blast
    show "(\<exists>post. c # cs = sub @ post) \<or> (\<exists>pre post. cs = pre @ sub @ post)"
    proof (cases pre)
      case Nil
      with eq show ?thesis by auto
    next
      case (Cons p pre')
      with eq have "cs = pre' @ sub @ post" by simp
      then show ?thesis by blast
    qed
  next
    assume "(\<exists>post. c # cs = sub @ post) \<or> (\<exists>pre post. cs = pre @ sub @ post)"
    then show "\<exists>pre post. c # cs = pre @ sub @ post"
    proof
      assume "\<exists>post. c # cs = sub @ post"
      then obtain post where "c # cs = [] @ sub @ post" by auto
      then show ?thesis by blast
    next
      assume "\<exists>pre post. cs = pre @ sub @ post"
      then obtain pre post where "c # cs = (c # pre) @ sub @ post" by auto
      then show ?thesis by blast
    qed
  qed
  with Cons.IH show ?case by (simp add: starts_with_iff)
qed

lemma scores_of_scoring: "scores_of ms = filter is_scoring ms"
proof -
  have "str_contains ''Goal'' (mark_value score) = is_scoring score" for score
    unfolding is_scoring_def by (rule str_contains_iff)
  then show ?thesis by (simp add: scores_of_def del: str_contains.simps)
qed

lemma first_goal_None: "first_goal frame possible = None \<longleftrightarrow> (\<forall>c \<in> set possible. c < frame)"
  by (induction possible) auto

lemma first_goal_prefix:
  assumes "\<forall>c \<in> set pre. c < frame" and "frame \<le> g"
  shows "first_goal frame (pre @ g # post) = Some g"
  using assms by (induction pre) auto

lemma first_goal_iff:
  "first_goal frame possible = Some g \<longleftrightarrow> first_at_or_after possible frame g"
  unfolding first_at_or_after_def
  using first_goal_Some [of frame possible g] first_goal_prefix [of _ frame g] by blast

lemma first_at_or_after_exists:
  "(\<exists>g. first_at_or_after possible frame g) \<longleftrightarrow> (\<exists>c \<in> set possible. frame \<le> c)"
proof -
  have "(\<exists>g. first_goal frame possible = Some g) \<longleftrightarrow> \<not> (\<forall>c \<in> set possible. c < frame)"
    using first_goal_None [of frame possible] by auto
  then show ?thesis
    unfolding first_goal_iff by (auto simp: not_less)
qed

lemma selecting_marks_eq:
  "selecting_marks ms possible g =
     filter (\<lambda>score. first_goal (mark_frame score) possible = Some g) (scores_of ms)"
  by (simp add: selecting_marks_def scores_of_scoring first_goal_iff conj_commute)

lemma ball_candidates:
  assumes "possible_goals (ball_only physics) = Inr possible"
  shows "possible = candidates physics"
  using assms
proof (induction physics arbitrary: possible)
  case Nil
  then show ?case by (simp add: candidates_def)
next
  case (Cons p rest)
  obtain frame m where p: "p = (frame, m)" by (cases p)
  show ?case
  proof (cases "map_of m ''ball''")
    case None
    with Cons show ?thesis unfolding p by (simp add: candidates_def)
  next
    case (Some b)
    with Cons.prems obtain y gs where y: "snap_component b ''location'' ''y'' = Some y"
      and gs: "possible_goals (ball_only rest) = Inr gs"
      and possible: "possible = (if \<bar>y\<bar> > GOAL_Y then frame # gs else gs)"
      unfolding p by (auto split: option.splits sum.splits)
    from Cons.IH [OF gs] have "gs = candidates rest" .
    with Some y possible show ?thesis
      unfolding p
      by (auto simp: candidates_def snap_component_def GOAL_Y_def split: option.splits)
  qed
qed

lemma spec_scoring: "is_scoring \<lparr>mark_frame = 1500, mark_value = ''Team1Goal''\<rparr>"
proof -
  have "''Team1Goal'' = ''Team1'' @ ''Goal'' @ []" by simp
  then show ?thesis unfolding is_scoring_def by (metis mark.select_convs(2))
qed

text \<open>
  Claim C6, amended. The candidates are the frames whose ball is behind a goal line
  (\<open>|y| > 510000\<close>), in the order in which the snapshot collection lists them. Every
  scoring mark that has a candidate at or after its frame selects one, and the selected
  frame is a goal frame of the result: it is the first listed candidate that is not before
  the mark, so it is never before the mark, and it is the smallest candidate at or after
  the mark whenever the candidates are listed in ascending order. Every goal frame
  returned was selected by a scoring mark and carries the side of the last mark of the
  list that selected it; no goal frame is returned twice.
\<close>

theorem find_goals_first_in_order:
  assumes "find_goals physics ms = Inr goals"
  shows "(\<forall>score \<in> set ms. is_scoring score \<and>
            (\<exists>c \<in> set (candidates physics). mark_frame score \<le> c) \<longrightarrow>
            (\<exists>g. first_at_or_after (candidates physics) (mark_frame score) g \<and>
                 g \<in> fst ` set goals)) \<and>
         (\<forall>g team. (g, team) \<in> set goals \<longrightarrow>
            selecting_marks ms (candidates physics) g \<noteq> [] \<and>
            team = (if mark_value (last (selecting_marks ms (candidates physics) g)) =
                        ''Team1Goal'' then 1 else 0)) \<and>
         distinct (map fst goals) \<and>
         (\<forall>frame g. first_at_or_after (candidates physics) frame g \<longrightarrow>
            g \<in> set (candidates physics) \<and> frame \<le> g \<and>
            (\<forall>g'. first_at_or_after (candidates physics) frame g' \<longrightarrow> g' = g) \<and>
            (sorted (candidates physics) \<longrightarrow>
               (\<forall>c \<in> set (candidates physics). frame \<le> c \<longrightarrow> g \<le> c)))"
proof -
  define possible where "possible = candidates physics"
  from assms obtain p where p: "possible_goals (ball_only physics) = Inr p"
    and goals: "goals = goal_marks (scores_of ms) p []"
    by (auto simp: find_goals_def split: sum.splits)
  from ball_candidates [OF p] have p_eq: "p = possible" by (simp add: possible_def)
  note goals = goals [unfolded p_eq]
  have selected: "\<exists>g. first_at_or_after possible (mark_frame score) g \<and> g \<in> fst ` set goals"
    if score: "score \<in> set ms" "is_scoring score"
      and later: "\<exists>c \<in> set possible. mark_frame score \<le> c" for score
  proof -
    from later obtain g where g: "first_at_or_after possible (mark_frame score) g"
      using first_at_or_after_exists by blast
    then have "first_goal (mark_frame score) possible = Some g"
      by (simp add: first_goal_iff)
    moreover have "score \<in> set (scores_of ms)"
      using score by (simp add: scores_of_scoring)
    ultimately have "g \<in> fst ` set goals"
      unfolding goals goal_marks_keys by auto
    with g show ?thesis by blast
  qed
  have distinct: "distinct (map fst goals)"
    unfolding goals by (rule goal_marks_distinct) simp
  have labels: "selecting_marks ms possible g \<noteq> [] \<and>
      team = (if mark_value (last (selecting_marks ms possible g)) = ''Team1Goal''
              then 1 else 0)"
    if "(g, team) \<in> set goals" for g team
  proof -
    from distinct that have found: "map_of goals g = Some team" by simp
    note sel_eq = selecting_marks_eq [of ms possible g]
    from found have sel: "selecting_marks ms possible g \<noteq> []"
      unfolding goals goal_marks_label sel_eq by (auto split: if_splits)
    with found have "team = scoring_team (last (selecting_marks ms possible g))"
      unfolding goals goal_marks_label sel_eq by simp
    with sel show ?thesis
      by (simp add: scoring_team_def)
  qed
  have first: "g \<in> set possible \<and> frame \<le> g \<and>
      (\<forall>g'. first_at_or_after possible frame g' \<longrightarrow> g' = g) \<and>
      (sorted possible \<longrightarrow> (\<forall>c \<in> set possible. frame \<le> c \<longrightarrow> g \<le> c))"
    if "first_at_or_after possible frame g" for frame g
  proof -
    from that have fg: "first_goal frame possible = Some g" by (simp add: first_goal_iff)
    from that have "g \<in> set possible" "frame \<le> g"
      by (auto simp: first_at_or_after_def)
    moreover have "g' = g" if "first_at_or_after possible frame g'" for g'
      using that fg by (simp add: first_goal_iff [symmetric])
    moreover have "sorted possible \<longrightarrow> (\<forall>c \<in> set possible. frame \<le> c \<longrightarrow> g \<le> c)"
      using first_goal_smallest [OF fg] by blast
    ultimately show ?thesis by blast
  qed
  show ?thesis
    unfolding possible_def [symmetric]
    using selected distinct labels first by blast
qed


theorem find_goals_first_in_order_witness:
  "find_goals spec_physics spec_marks = Inr [(510, 0), (1505, 1)] \<and>
   candidates spec_physics = [510, 1505] \<and>
   is_scoring \<lparr>mark_frame = 1500, mark_value = ''Team1Goal''\<rparr> \<and>
   (\<exists>g. first_at_or_after [510, 1505] 1500 g \<and> g \<in> fst ` set [(510, 0), (1505, 1 :: int)]) \<and>
   first_goal 1500 [510, 1505] = Some 1505 \<and>
   selecting_marks spec_marks [510, 1505] 1505 \<noteq> [] \<and>
   (1 :: int) = (if mark_value (last (selecting_marks spec_marks [510, 1505] 1505)) =
                     ''Team1Goal'' then 1 else 0)"
proof -
  note concl = find_goals_first_in_order [OF spec_goals, unfolded spec_candidates]
  have in_marks: "\<lparr>mark_frame = 1500, mark_value = ''Team1Goal''\<rparr> \<in> set spec_marks"
    by (simp add: spec_marks_def)
  have later: "\<exists>c \<in> set [510, 1505 :: int].
      mark_frame \<lparr>mark_frame = 1500, mark_value = ''Team1Goal''\<rparr> \<le> c"
    by simp
  from concl have "\<forall>score \<in> set spec_marks. is_scoring score \<and>
            (\<exists>c \<in> set [510, 1505]. mark_frame score \<le> c) \<longrightarrow>
            (\<exists>g. first_at_or_after [510, 1505] (mark_frame score) g \<and>
                 g \<in> fst ` set [(510, 0), (1505, 1 :: int)])"
    by (elim conjE)
  with in_marks spec_scoring later
  have a: "\<exists>g. first_at_or_after [510, 1505]
                 (mark_frame \<lparr>mark_frame = 1500, mark_value = ''Team1Goal''\<rparr>) g \<and>
               g \<in> fst ` set [(510, 0), (1505, 1 :: int)]"
    by blast
  from concl have "\<forall>g team. (g, team) \<in> set [(510, 0), (1505, 1 :: int)] \<longrightarrow>
            selecting_marks spec_marks [510, 1505] g \<noteq> [] \<and>
            team = (if mark_value (last (selecting_marks spec_marks [510, 1505] g)) =
                        ''Team1Goal'' then 1 else 0)"
    by (elim conjE)
  then have b: "selecting_marks spec_marks [510, 1505] 1505 \<noteq> [] \<and>
      (1 :: int) = (if mark_value (last (selecting_marks spec_marks [510, 1505] 1505)) =
                     ''Team1Goal'' then 1 else 0)"
    by simp
  have c: "first_goal 1500 [510, 1505] = Some 1505" by simp
  from a have a': "\<exists>g. first_at_or_after [510, 1505] 1500 g \<and>
      g \<in> fst ` set [(510, 0), (1505, 1 :: int)]"
    by simp
  show ?thesis
    using spec_goals spec_candidates spec_scoring a' b c by blast
qed


text \<open>
  As claim C6 is stated, the smallest candidate at or after the mark is selected, with the
  side of that mark. In \<open>goal_trace\<close> interpolation enters frame 2 into the collection
  after frame 3, both are candidates, and for the mark at frame 2 \<open>find_goals\<close> returns
  frame 3. In \<open>kickoff_physics\<close>, whose only candidate is frame 15, a mark of team 1 at
  frame 13 followed by a mark of team 0 at frame 14 gives frame 15 the side 0 alone.
\<close>

theorem find_goals_counterexample:
  "get_physics goal_trace True True True = Inr goal_physics \<and>
   marks goal_trace = [\<lparr>mark_frame = 2, mark_value = ''Team0Goal''\<rparr>] \<and>
   possible_goals (ball_only goal_physics) = Inr [3, 2] \<and>
   find_goals goal_physics (marks goal_trace) = Inr [(3, 0)] \<and>
   find_goals kickoff_physics
     [\<lparr>mark_frame = 13, mark_value = ''Team1Goal''\<rparr>,
      \<lparr>mark_frame = 14, mark_value = ''Team0Goal''\<rparr>] = Inr [(15, 0)]"
proof -
  have "find_goals kickoff_physics
     [\<lparr>mark_frame = 13, mark_value = ''Team1Goal''\<rparr>,
      \<lparr>mark_frame = 14, mark_value = ''Team0Goal''\<rparr>] = Inr [(15, 0)]"
    by code_simp
  with goal_run goal_candidates goal_found show ?thesis
    by (simp add: goal_trace_def)
qed

section \<open>Kickoffs\<close>

lemma qualifies_step:
  assumes "qualifies physics window cars_reset k"
    and "\<not> ((cars_reset \<or> reset_at physics window) \<and> full_at physics window)"
  shows "qualifies physics (window + 1) (cars_reset \<or> reset_at physics window) k"
proof -
  from assms have "window \<noteq> k"
    unfolding qualifies_def by (metis order_antisym)
  moreover have "window \<le> k" using assms(1) by (simp add: qualifies_def)
  ultimately have lt: "window + 1 \<le> k" by simp
  from assms(1) obtain j where
    j: "cars_reset \<or> (window \<le> j \<and> j \<le> k \<and> reset_at physics j)"
    unfolding qualifies_def by blast
  have "(cars_reset \<or> reset_at physics window) \<or>
          (\<exists>j. window + 1 \<le> j \<and> j \<le> k \<and> reset_at physics j)"
  proof (cases "cars_reset \<or> j = window")
    case True
    then show ?thesis using j by blast
  next
    case False
    then have "window + 1 \<le> j \<and> j \<le> k \<and> reset_at physics j" using j by auto
    then show ?thesis by blast
  qed
  then show ?thesis
    using lt assms(1) by (simp add: qualifies_def)
qed

lemma kickoff_scan_unfold:
  "kickoff_scan physics window cars_reset =
     (if (cars_reset \<or> reset_at physics window) \<and> full_at physics window then Some window
      else kickoff_scan physics (window + 1) (cars_reset \<or> reset_at physics window))"
  by (subst kickoff_scan.simps) (auto simp: Let_def)

lemma kickoff_scan_returns:
  assumes "qualifies physics window cars_reset k"
  shows "\<exists>w. kickoff_scan physics window cars_reset = Some w \<and> window \<le> w \<and> w \<le> k"
  using assms
proof (induction "nat (k - window)" arbitrary: window cars_reset)
  case 0
  then have "window = k" by (simp add: qualifies_def)
  with "0.prems" have "(cars_reset \<or> reset_at physics window) \<and> full_at physics window"
    unfolding qualifies_def by (metis order_antisym)
  then show ?case
    using \<open>window = k\<close> by (subst kickoff_scan_unfold) simp
next
  case (Suc n)
  show ?case
  proof (cases "(cars_reset \<or> reset_at physics window) \<and> full_at physics window")
    case True
    moreover have "window \<le> k" using Suc.prems by (simp add: qualifies_def)
    ultimately show ?thesis by (subst kickoff_scan_unfold) simp
  next
    case False
    then have q: "qualifies physics (window + 1) (cars_reset \<or> reset_at physics window) k"
      using Suc.prems qualifies_step by blast
    have "n = nat (k - (window + 1))" using Suc.hyps(2) by linarith
    from Suc.hyps(1) [OF this q] obtain w where
      "kickoff_scan physics (window + 1) (cars_reset \<or> reset_at physics window) = Some w"
      "window + 1 \<le> w" "w \<le> k" by blast
    then show ?thesis
      using False by (subst kickoff_scan_unfold) auto
  qed
qed

lemma kickoff_scan_sound:
  assumes "kickoff_scan physics window cars_reset = Some w"
  shows "qualifies physics window cars_reset w"
  using assms
proof (induction physics window cars_reset w
    rule: kickoff_scan.raw_induct [rotated 1, consumes 1, case_names step])
  case (step scan physics window cars_reset w)
  show ?case
  proof (cases "(cars_reset \<or> reset_at physics window) \<and> full_at physics window")
    case True
    then have "w = window" using step.hyps by (auto simp: Let_def split: if_splits)
    then show ?thesis using True unfolding qualifies_def by (metis order_refl)
  next
    case False
    then have "scan physics (window + 1) (cars_reset \<or> reset_at physics window) = Some w"
      using step.hyps by (auto simp: Let_def split: if_splits)
    from step.IH [OF this]
    have "qualifies physics (window + 1) (cars_reset \<or> reset_at physics window) w" .
    then obtain j where "window + 1 \<le> w" "full_at physics w"
      "cars_reset \<or> reset_at physics window \<or>
         (window + 1 \<le> j \<and> j \<le> w \<and> reset_at physics j)"
      unfolding qualifies_def by blast
    then have "window \<le> w \<and> full_at physics w \<and>
        (cars_reset \<or> (window \<le> window \<and> window \<le> w \<and> reset_at physics window) \<or>
         (window \<le> j \<and> j \<le> w \<and> reset_at physics j))"
      by auto
    then show ?thesis
      unfolding qualifies_def by blast
  qed
qed

lemma kickoff_scan_None_iff:
  "kickoff_scan physics window cars_reset = None \<longleftrightarrow>
     (\<forall>k. \<not> qualifies physics window cars_reset k)"
  by (metis kickoff_scan_returns kickoff_scan_sound not_None_eq option.distinct(1))

lemma kickoff_scan_least:
  assumes "kickoff_scan physics window cars_reset = Some w"
  shows "qualifies physics window cars_reset w \<and>
         (\<forall>k. qualifies physics window cars_reset k \<longrightarrow> w \<le> k)"
proof -
  have "w \<le> k" if "qualifies physics window cars_reset k" for k
    using kickoff_scan_returns [OF that] assms by auto
  with kickoff_scan_sound [OF assms] show ?thesis by blast
qed

lemma kickoffs_loop_None_iff:
  "kickoffs_loop physics starts out = None \<longleftrightarrow>
     (\<exists>g \<in> set starts. \<forall>k. \<not> qualifies physics g False k)"
proof (induction starts arbitrary: out)
  case Nil
  then show ?case by simp
next
  case (Cons g rest)
  show ?case
  proof (cases "kickoff_scan physics g False")
    case None
    then have "\<forall>k. \<not> qualifies physics g False k"
      by (simp add: kickoff_scan_None_iff)
    with None show ?thesis by auto
  next
    case (Some w)
    then have "\<exists>k. qualifies physics g False k"
      using kickoff_scan_sound by blast
    with Some Cons.IH [of "AList.update g w out"] show ?thesis by auto
  qed
qed

lemma kickoffs_loop_result:
  assumes "kickoffs_loop physics starts out = Some res"
  shows "map_of res g =
           (if g \<in> set starts then kickoff_scan physics g False else map_of out g)"
  using assms
proof (induction starts arbitrary: out)
  case Nil
  then show ?case by simp
next
  case (Cons g0 rest)
  then obtain w where w: "kickoff_scan physics g0 False = Some w"
    and loop: "kickoffs_loop physics rest (AList.update g0 w out) = Some res"
    by (auto split: option.splits)
  from Cons.IH [OF loop] w show ?case
    by (auto simp: update_conv')
qed

lemma full_at_ends: "full_at physics k \<Longrightarrow> frame_present physics k \<and> frame_present physics (k + 9)"
proof -
  assume "full_at physics k"
  then have all: "\<forall>i \<in> set [0..<10]. frame_present physics (k + int i)"
    by (simp add: full_at_def list_all_iff)
  have "(0::nat) \<in> set [0..<10]" "(9::nat) \<in> set [0..<10]" by simp_all
  with all have "frame_present physics (k + int 0)" "frame_present physics (k + int 9)"
    by blast+
  then show ?thesis by simp
qed

lemma gap4_never_full: "\<not> full_at gap4_physics k"
proof
  assume "full_at gap4_physics k"
  from full_at_ends [OF this] show False
    by (auto simp: frame_present_def gap4_physics_def split: if_splits)
qed

lemma gap4_no_goals: "find_goals gap4_physics (marks gap4_trace) = Inr []"
  by code_simp

text \<open>
  Claim C3, amended. \<open>find_kickoffs\<close> has no bound and no error of its own. It runs
  forever exactly when, for one of its start frames (every goal frame but the last, and
  frame 0), no frame at or after the start begins ten present frames with a reset window
  between the start and it. When it returns, every start frame is mapped to the first
  such frame.
\<close>

theorem find_kickoffs_unbounded:
  assumes "find_goals physics ms = Inr goals"
  shows "(find_kickoffs physics ms = None) =
           (\<exists>g \<in> set (kickoff_starts goals). \<forall>k. \<not> qualifies physics g False k) \<and>
         (\<forall>e. find_kickoffs physics ms \<noteq> Some (Inl e)) \<and>
         (\<forall>out. find_kickoffs physics ms = Some (Inr out) \<longrightarrow>
            (\<forall>g \<in> set (kickoff_starts goals). \<exists>w. map_of out g = Some w \<and>
               qualifies physics g False w \<and> (\<forall>k. qualifies physics g False k \<longrightarrow> w \<le> k)))"
proof (intro conjI allI impI ballI)
  show "(find_kickoffs physics ms = None) =
           (\<exists>g \<in> set (kickoff_starts goals). \<forall>k. \<not> qualifies physics g False k)"
    using assms kickoffs_loop_None_iff [of physics "kickoff_starts goals" "[]"]
    by (simp add: find_kickoffs_def)
next
  fix e show "find_kickoffs physics ms \<noteq> Some (Inl e)"
    using assms by (auto simp: find_kickoffs_def)
next
  fix out g
  assume "find_kickoffs physics ms = Some (Inr out)" and g: "g \<in> set (kickoff_starts goals)"
  then have "kickoffs_loop physics (kickoff_starts goals) [] = Some out"
    using assms by (auto simp: find_kickoffs_def)
  from kickoffs_loop_result [OF this, of g] g
  have scan: "map_of out g = kickoff_scan physics g False" by simp
  show "\<exists>w. map_of out g = Some w \<and> qualifies physics g False w \<and>
          (\<forall>k. qualifies physics g False k \<longrightarrow> w \<le> k)"
  proof (cases "kickoff_scan physics g False")
    case None
    then have "kickoffs_loop physics (kickoff_starts goals) [] = None"
      using g kickoffs_loop_None_iff kickoff_scan_None_iff by blast
    with \<open>kickoffs_loop physics (kickoff_starts goals) [] = Some out\<close> show ?thesis by simp
  next
    case (Some w)
    with kickoff_scan_least [OF Some] scan show ?thesis by simp
  qed
qed

theorem find_kickoffs_unbounded_witness:
  "find_goals gap4_physics (marks gap4_trace) = Inr [] \<and>
   find_kickoffs gap4_physics (marks gap4_trace) = None \<and>
   (\<exists>g \<in> set (kickoff_starts []). \<forall>k. \<not> qualifies gap4_physics g False k) \<and>
   find_goals kickoff_physics (marks kickoff_trace) = Inr [(15, 0)] \<and>
   find_kickoffs kickoff_physics (marks kickoff_trace) = Some (Inr [(0, 10)]) \<and>
   qualifies kickoff_physics 0 False 10"
proof -
  have "\<exists>g \<in> set (kickoff_starts []). \<forall>k. \<not> qualifies gap4_physics g False k"
    by (simp add: kickoff_starts_def qualifies_def gap4_never_full)
  with find_kickoffs_unbounded [OF gap4_no_goals] gap4_no_goals
  have forever: "find_goals gap4_physics (marks gap4_trace) = Inr [] \<and>
      find_kickoffs gap4_physics (marks gap4_trace) = None \<and>
      (\<exists>g \<in> set (kickoff_starts []). \<forall>k. \<not> qualifies gap4_physics g False k)"
    by blast
  have "\<forall>out. find_kickoffs kickoff_physics (marks kickoff_trace) = Some (Inr out) \<longrightarrow>
          (\<forall>g \<in> set (kickoff_starts [(15, 0)]). \<exists>w. map_of out g = Some w \<and>
             qualifies kickoff_physics g False w \<and>
             (\<forall>k. qualifies kickoff_physics g False k \<longrightarrow> w \<le> k))"
    using find_kickoffs_unbounded [OF kickoff_goals] by (elim conjE)
  with kickoff_found
  have "\<forall>g \<in> set (kickoff_starts [(15, 0)]). \<exists>w. map_of [(0, 10)] g = Some w \<and>
          qualifies kickoff_physics g False w \<and>
          (\<forall>k. qualifies kickoff_physics g False k \<longrightarrow> w \<le> k)"
    by blast
  moreover have "0 \<in> set (kickoff_starts [(15, 0)])"
    by (simp add: kickoff_starts_def)
  ultimately obtain w where "map_of [(0, 10)] (0 :: int) = Some w"
    "qualifies kickoff_physics 0 False w"
    by blast
  then have "qualifies kickoff_physics 0 False 10"
    by simp
  with forever kickoff_goals kickoff_found show ?thesis by blast
qed

text \<open>
  As claim C3 is stated, \<open>find_kickoffs\<close> terminates on every trace. On
  \<open>gap4_trace\<close>, whose collection has two frames, it does not return.
\<close>

theorem find_kickoffs_counterexample:
  "get_physics gap4_trace True True True = Inr gap4_physics \<and>
   find_kickoffs gap4_physics (marks gap4_trace) = None"
proof -
  have "kickoff_scan gap4_physics 0 False = None"
    by (simp add: kickoff_scan_None_iff qualifies_def gap4_never_full)
  then have "find_kickoffs gap4_physics (marks gap4_trace) = None"
    by (simp add: find_kickoffs_def gap4_no_goals kickoff_starts_def)
  with gap4_run show ?thesis by simp
qed

section \<open>Possession intervals\<close>

lemma cumsum_length: "length (cumsum acc arr) = length arr"
  by (induction arr arbitrary: acc) auto

lemma cumsum_nth:
  "k < length arr \<Longrightarrow> cumsum acc arr ! k = acc + length (filter id (take (Suc k) arr))"
proof (induction arr arbitrary: acc k)
  case Nil
  then show ?case by simp
next
  case (Cons b bs)
  show ?case
  proof (cases k)
    case 0
    then show ?thesis by simp
  next
    case (Suc k')
    with Cons.prems have "k' < length bs" by simp
    from Cons.IH [OF this, of "acc + of_bool b"] Suc show ?thesis by simp
  qed
qed

lemma percentage_length: "length (percentage arr) = length arr"
  by (simp add: percentage_def cumsum_length del: upt_Suc)

lemma percentage_nth:
  assumes "k < length arr"
  shows "percentage arr ! k = running_mean arr k"
proof -
  have "[1..<length arr + 1] ! k = 1 + k"
    using assms by (intro nth_upt) simp
  then show ?thesis
    using assms
    by (simp add: percentage_def cumsum_length cumsum_nth running_mean_def del: upt_Suc)
qed

lemma argmin_bool_first_false:
  assumes "\<not> list_all id bs"
  shows "argmin_bool bs < length bs \<and> \<not> bs ! argmin_bool bs \<and> (\<forall>j < argmin_bool bs. bs ! j)"
  using assms
proof (induction bs)
  case Nil
  then show ?case by simp
next
  case (Cons b bs)
  show ?case
  proof (cases b)
    case False
    then show ?thesis by simp
  next
    case True
    with Cons.prems have rest: "\<not> list_all id bs" by (simp add: list_all_iff)
    from Cons.IH [OF rest] True rest show ?thesis
      by (auto simp: nth_Cons split: nat.splits)
  qed
qed

lemma find_window_size_props:
  assumes "find_window_size arr threshold = Inr k"
  shows "arr \<noteq> [] \<and> 0 \<le> threshold \<and> threshold \<le> 1 \<and> k < length arr \<and>
         (\<forall>j < k. threshold < running_mean arr j) \<and>
         ((\<forall>j < length arr. threshold < running_mean arr j) \<longrightarrow> k = length arr - 1)"
proof -
  define above where "above = map (\<lambda>p. p > threshold) (percentage arr)"
  have len: "length above = length arr"
    by (simp add: above_def percentage_length)
  have nth: "above ! j = (threshold < running_mean arr j)" if "j < length arr" for j
    using that by (simp add: above_def percentage_length percentage_nth)
  from assms have ok: "arr \<noteq> []" "0 \<le> threshold" "threshold \<le> 1"
    and k: "k = (if list_all id above then length above - 1 else argmin_bool above)"
    by (auto simp: find_window_size_def above_def Let_def split: if_splits)
  have all_iff: "list_all id above \<longleftrightarrow> (\<forall>j < length arr. threshold < running_mean arr j)"
    using len nth by (auto simp: list_all_length)
  show ?thesis
  proof (cases "list_all id above")
    case True
    with k len have "k = length arr - 1" by simp
    with ok True all_iff show ?thesis by auto
  next
    case False
    with k have "k = argmin_bool above" by simp
    with argmin_bool_first_false [OF False] len nth
    have "k < length arr" "\<forall>j < k. threshold < running_mean arr j"
      by auto
    with ok False all_iff show ?thesis by auto
  qed
qed

lemma running_mean_positive:
  assumes "arr ! 0" and "j < length arr"
  shows "0 < running_mean arr j"
proof -
  from assms obtain bs where "arr = True # bs"
    by (cases arr) auto
  then have "0 < length (filter id (take (Suc j) arr))" by simp
  then show ?thesis by (simp add: running_mean_def)
qed

lemma intervals_loop_nth:
  assumes "intervals_loop physics threshold goals = Inr ivs"
  shows "length ivs = length goals \<and>
         (\<forall>n < length goals.
            possession_interval physics threshold (fst (goals ! n)) (snd (goals ! n)) =
              Inr (ivs ! n))"
  using assms
proof (induction goals arbitrary: ivs)
  case Nil
  then show ?case by simp
next
  case (Cons p goals)
  obtain goal team where p: "p = (goal, team)" by (cases p)
  from Cons.prems obtain iv rest where
    iv: "possession_interval physics threshold goal team = Inr iv"
    and rest: "intervals_loop physics threshold goals = Inr rest"
    and ivs: "ivs = iv # rest"
    unfolding p by (auto split: sum.splits)
  from Cons.IH [OF rest] iv show ?case
    unfolding p ivs by (auto simp: nth_Cons split: nat.splits)
qed

lemma ball_track_length:
  assumes "ball_track physics fs = Inr track"
    and "\<forall>f \<in> set fs. get_snapshot physics f ''ball'' \<noteq> None"
  shows "length track = length fs"
  using assms
proof (induction fs arbitrary: track)
  case Nil
  then show ?case by simp
next
  case (Cons f fs)
  from Cons.prems(2) obtain m b where "map_of physics f = Some m" "map_of m ''ball'' = Some b"
    by (auto simp: get_snapshot_def split: option.splits)
  with Cons.prems(1) obtain rest p where "ball_track physics fs = Inr rest" "track = p # rest"
    by (auto split: option.splits sum.splits)
  with Cons.IH [of rest] Cons.prems(2) show ?case by simp
qed

lemma last_kickoff_props:
  assumes "last_kickoff physics goal = Inr L"
  shows "0 \<le> L \<and> L < goal \<and> map_of physics L = None \<and>
         (\<forall>f. L < f \<and> f < goal \<and> f < Max (fst ` set physics) \<longrightarrow> map_of physics f \<noteq> None)"
proof -
  define missing where "missing = filter (\<lambda>frame. frame \<notin> set (map fst physics) \<and> frame < goal)
                           [0..Max (set (map fst physics)) - 1]"
  from assms have ne: "missing \<noteq> []" and L: "L = Max (set missing)"
    by (auto simp: last_kickoff_def missing_def Let_def split: if_splits)
  then have "L \<in> set missing" by (metis List.finite_set Max_in set_empty)
  then have a: "0 \<le> L" "L < goal" "L \<notin> fst ` set physics"
    by (auto simp: missing_def)
  then have b: "map_of physics L = None"
    by (simp add: map_of_eq_None_iff)
  have "map_of physics f \<noteq> None" if "L < f" "f < goal" "f < Max (fst ` set physics)" for f
  proof
    assume "map_of physics f = None"
    then have "f \<notin> fst ` set physics" by (simp add: map_of_eq_None_iff)
    with that a have "f \<in> set missing" by (auto simp: missing_def)
    then have "f \<le> L" unfolding L by simp
    with that show False by simp
  qed
  with a b show ?thesis by blast
qed

lemma possession_interval_parts:
  assumes "possession_interval physics threshold goal team = Inr iv"
  shows "\<exists>arr k. attacking physics goal team = Inr arr \<and>
           find_window_size arr threshold = Inr k \<and> iv = (goal - int k, goal)"
  using assms by (auto simp: possession_interval_def split: sum.splits)

lemma attacking_length:
  assumes "attacking physics goal team = Inr arr"
    and "last_kickoff physics goal = Inr L"
    and "\<forall>f. L < f \<and> f \<le> goal \<longrightarrow> get_snapshot physics f ''ball'' \<noteq> None"
  shows "int (length arr) = goal - L"
proof -
  from assms(1,2) obtain track where
    track: "ball_track physics (scanned_frames goal L) = Inr track"
    and arr: "arr = together team track"
    by (auto simp: attacking_def split: sum.splits)
  have "\<forall>f \<in> set (scanned_frames goal L). get_snapshot physics f ''ball'' \<noteq> None"
    using assms(3) by (auto simp: scanned_frames_def)
  from ball_track_length [OF track this] have "length track = length (scanned_frames goal L)" .
  moreover have "L < goal" using last_kickoff_props [OF assms(2)] by simp
  ultimately show ?thesis
    unfolding arr by (simp add: together_def scanned_frames_def)
qed

lemma reset_before_full:
  assumes "reset_at physics j" and "full_at physics w" and "j \<le> w"
  shows "j + 9 < w"
proof (rule ccontr)
  assume "\<not> j + 9 < w"
  with assms(3) have "w \<in> set [j..j + 9]" by simp
  with assms(1) have "\<not> frame_present physics w"
    by (auto simp: reset_at_def list_ex_iff)
  with full_at_ends [OF assms(2)] show False by simp
qed

lemma full_at_iff: "full_at physics w \<longleftrightarrow> (\<forall>f. w \<le> f \<and> f \<le> w + 9 \<longrightarrow> frame_present physics f)"
proof
  assume full: "full_at physics w"
  show "\<forall>f. w \<le> f \<and> f \<le> w + 9 \<longrightarrow> frame_present physics f"
  proof (intro allI impI)
    fix f assume f: "w \<le> f \<and> f \<le> w + 9"
    then have "nat (f - w) \<in> set [0..<10]" by auto
    with full have "frame_present physics (w + int (nat (f - w)))"
      unfolding full_at_def list_all_iff by blast
    with f show "frame_present physics f" by simp
  qed
next
  assume "\<forall>f. w \<le> f \<and> f \<le> w + 9 \<longrightarrow> frame_present physics f"
  then show "full_at physics w"
    by (auto simp: full_at_def list_all_iff)
qed

lemma frame_before_kickoff_absent:
  assumes "kickoff_scan physics g False = Some w"
  shows "g < w \<and> \<not> frame_present physics (w - 1)"
proof -
  from kickoff_scan_least [OF assms] have q: "qualifies physics g False w"
    and least: "\<And>k. qualifies physics g False k \<Longrightarrow> w \<le> k" by blast+
  from q obtain j where j: "g \<le> j" "j \<le> w" "reset_at physics j" and full: "full_at physics w"
    unfolding qualifies_def by blast
  from reset_before_full [OF j(3) full j(2)] have far: "j + 9 < w" .
  have "\<not> frame_present physics (w - 1)"
  proof
    assume "frame_present physics (w - 1)"
    with full have "full_at physics (w - 1)"
      unfolding full_at_iff by (smt (verit))
    with j far have "qualifies physics g False (w - 1)"
      unfolding qualifies_def by (intro conjI disjI2 exI [of _ j]) simp_all
    from least [OF this] show False by simp
  qed
  with j far show ?thesis by simp
qed

lemma last_kickoff_before_kickoff:
  assumes scan: "kickoff_scan physics g False = Some w" and g: "0 \<le> g" and w: "w \<le> goal"
    and present: "\<forall>f. w \<le> f \<and> f \<le> goal \<longrightarrow> map_of physics f \<noteq> None"
    and nonempty: "\<forall>(f, m) \<in> set physics. m \<noteq> []"
    and L: "last_kickoff physics goal = Inr L"
  shows "L = w - 1"
proof -
  from frame_before_kickoff_absent [OF scan] have gw: "g < w"
    and absent: "\<not> frame_present physics (w - 1)" by simp_all
  have none: "map_of physics (w - 1) = None"
  proof (cases "map_of physics (w - 1)")
    case (Some m)
    then have "(w - 1, m) \<in> set physics" by (rule map_of_SomeD)
    with nonempty have "m \<noteq> []" by auto
    with Some absent show ?thesis by (simp add: frame_present_def)
  qed simp
  from present w have "map_of physics w \<noteq> None" by simp
  then have "w \<in> fst ` set physics"
    by (metis map_of_eq_None_iff)
  then have wmax: "w \<le> Max (fst ` set physics)" by simp
  note props = last_kickoff_props [OF L]
  have "\<not> L < w - 1"
  proof
    assume "L < w - 1"
    with props w wmax have "map_of physics (w - 1) \<noteq> None" by simp
    with none show False by simp
  qed
  moreover have "\<not> w \<le> L"
  proof
    assume "w \<le> L"
    moreover from props have "L \<le> goal" by simp
    ultimately have "map_of physics L \<noteq> None" using present by blast
    with props show False by simp
  qed
  ultimately show ?thesis by simp
qed

lemma kickoff_mean: "running_mean [True, True, True, True, True, True] 5 = 1"
  by (simp add: running_mean_def)

lemma kickoff_balls:
  "\<forall>f. 9 < f \<and> f \<le> 15 \<longrightarrow> get_snapshot kickoff_physics f ''ball'' \<noteq> None"
proof (intro allI impI)
  fix f :: int assume "9 < f \<and> f \<le> 15"
  then consider "f = 10" | "f = 11" | "f = 12" | "f = 13" | "f = 14" | "f = 15" by linarith
  then show "get_snapshot kickoff_physics f ''ball'' \<noteq> None"
    by cases (simp_all add: get_snapshot_def kickoff_physics_def)
qed

lemma kickoff_nonempty: "\<forall>(f, m) \<in> set kickoff_physics. m \<noteq> []"
  by (simp add: kickoff_physics_def)

lemma kickoff_frames:
  "\<forall>f. 10 \<le> f \<and> f \<le> 15 \<longrightarrow> map_of kickoff_physics f \<noteq> None"
proof (intro allI impI)
  fix f :: int assume "10 \<le> f \<and> f \<le> 15"
  then consider "f = 10" | "f = 11" | "f = 12" | "f = 13" | "f = 14" | "f = 15" by linarith
  then show "map_of kickoff_physics f \<noteq> None"
    by cases (simp_all add: kickoff_physics_def)
qed

lemma find_window_size_first_drop:
  assumes "find_window_size arr threshold = Inr k"
    and "\<exists>j < length arr. \<not> threshold < running_mean arr j"
  shows "\<not> threshold < running_mean arr k"
proof -
  define above where "above = map (\<lambda>p. p > threshold) (percentage arr)"
  have len: "length above = length arr"
    by (simp add: above_def percentage_length)
  have nth: "above ! j = (threshold < running_mean arr j)" if "j < length arr" for j
    using that by (simp add: above_def percentage_length percentage_nth)
  from assms(2) len nth have some: "\<not> list_all id above"
    by (auto simp: list_all_length)
  with assms(1) have "k = argmin_bool above"
    by (auto simp: find_window_size_def above_def Let_def split: if_splits)
  with argmin_bool_first_false [OF some] len nth show ?thesis by auto
qed

lemma drop_means:
  "running_mean [True, True, False, False, False, False] 0 = 1"
  "running_mean [True, True, False, False, False, False] 1 = 1"
  "running_mean [True, True, False, False, False, False] 2 = 2 / 3"
  by (simp_all add: running_mean_def)

text \<open>
  Claim C4 puts the start of the interval at the last frame, going back from the goal, at
  which the running mean still holds, as the comment in \<open>find_window_size\<close> does
  (\<open>the last index where the percentage exceeds the threshold\<close>). The code takes
  \<open>np.argmin\<close> of the comparison, the first position that fails. \<open>poss_intervals\<close>
  returns one interval per goal, ending at the goal; its start is \<open>k\<close> positions of the
  scan before the goal, where the running mean is greater than the threshold at every
  position before \<open>k\<close> and, when it fails anywhere, is not greater than the threshold
  at \<open>k\<close> itself. When it fails nowhere, \<open>k\<close> is the last position of the scan, the
  frame after the last frame below the goal with no entry in the collection.
\<close>

theorem possession_interval_first_drop:
  assumes "find_goals physics ms = Inr goals"
    and "poss_intervals physics ms threshold = Inr ivs"
  shows "length ivs = length goals \<and>
         (\<forall>n < length goals. \<exists>arr k.
            attacking physics (fst (goals ! n)) (snd (goals ! n)) = Inr arr \<and>
            k < length arr \<and>
            ivs ! n = (fst (goals ! n) - int k, fst (goals ! n)) \<and>
            (\<forall>j < k. threshold < running_mean arr j) \<and>
            ((\<exists>j < length arr. \<not> threshold < running_mean arr j) \<longrightarrow>
               \<not> threshold < running_mean arr k) \<and>
            ((\<forall>j < length arr. threshold < running_mean arr j) \<longrightarrow>
               k = length arr - 1 \<and>
               (\<forall>L. last_kickoff physics (fst (goals ! n)) = Inr L \<and>
                    (\<forall>f. L < f \<and> f \<le> fst (goals ! n) \<longrightarrow>
                         get_snapshot physics f ''ball'' \<noteq> None) \<longrightarrow>
                    map_of physics L = None \<and> fst (ivs ! n) = L + 1)))"
proof -
  from assms have loop: "intervals_loop physics threshold goals = Inr ivs"
    by (simp add: poss_intervals_def)
  note nth = intervals_loop_nth [OF loop]
  have "\<exists>arr k.
            attacking physics (fst (goals ! n)) (snd (goals ! n)) = Inr arr \<and>
            k < length arr \<and>
            ivs ! n = (fst (goals ! n) - int k, fst (goals ! n)) \<and>
            (\<forall>j < k. threshold < running_mean arr j) \<and>
            ((\<exists>j < length arr. \<not> threshold < running_mean arr j) \<longrightarrow>
               \<not> threshold < running_mean arr k) \<and>
            ((\<forall>j < length arr. threshold < running_mean arr j) \<longrightarrow>
               k = length arr - 1 \<and>
               (\<forall>L. last_kickoff physics (fst (goals ! n)) = Inr L \<and>
                    (\<forall>f. L < f \<and> f \<le> fst (goals ! n) \<longrightarrow>
                         get_snapshot physics f ''ball'' \<noteq> None) \<longrightarrow>
                    map_of physics L = None \<and> fst (ivs ! n) = L + 1))"
    if n: "n < length goals" for n
  proof -
    define goal where "goal = fst (goals ! n)"
    define team where "team = snd (goals ! n)"
    from nth n have "possession_interval physics threshold goal team = Inr (ivs ! n)"
      by (simp add: goal_def team_def)
    from possession_interval_parts [OF this] obtain arr k where
      arr: "attacking physics goal team = Inr arr"
      and k: "find_window_size arr threshold = Inr k"
      and iv: "ivs ! n = (goal - int k, goal)" by blast
    note props = find_window_size_props [OF k]
    have drop: "(\<exists>j < length arr. \<not> threshold < running_mean arr j) \<longrightarrow>
        \<not> threshold < running_mean arr k"
      using find_window_size_first_drop [OF k] by blast
    have kickoff: "map_of physics L = None \<and> fst (ivs ! n) = L + 1"
      if all: "\<forall>j < length arr. threshold < running_mean arr j"
        and L: "last_kickoff physics goal = Inr L"
        and balls: "\<forall>f. L < f \<and> f \<le> goal \<longrightarrow> get_snapshot physics f ''ball'' \<noteq> None" for L
    proof -
      from props all have "k = length arr - 1" by blast
      moreover from props have "arr \<noteq> []" by blast
      moreover note attacking_length [OF arr L balls]
      ultimately have "goal - int k = L + 1"
        by (cases arr) auto
      with iv last_kickoff_props [OF L] show ?thesis by simp
    qed
    show ?thesis
      unfolding goal_def [symmetric] team_def [symmetric]
      using arr iv props drop kickoff by blast
  qed
  with nth show ?thesis by blast
qed


text \<open>
  In \<open>drop_trace\<close> the goal is at frame 15 and the scan reads attacking, attacking and
  then four frames that do not attack. With threshold 0.95 the running mean is 1 at frames
  15 and 14 and 2/3 at frame 13; the interval starts at frame 13.
\<close>

theorem possession_interval_first_drop_witness:
  "get_physics drop_trace True True True = Inr drop_physics \<and>
   find_goals drop_physics (marks drop_trace) = Inr [(15, 0)] \<and>
   poss_intervals drop_physics (marks drop_trace) (19 / 20) = Inr [(13, 15)] \<and>
   attacking drop_physics 15 0 = Inr [True, True, False, False, False, False] \<and>
   running_mean [True, True, False, False, False, False] 1 = 1 \<and>
   running_mean [True, True, False, False, False, False] 2 = 2 / 3 \<and>
   (\<exists>k. (13, 15 :: int) = (15 - int k, 15) \<and> k < 6 \<and>
      (\<forall>j < k. 19 / 20 < running_mean [True, True, False, False, False, False] j) \<and>
      \<not> 19 / 20 < running_mean [True, True, False, False, False, False] k)"
proof -
  define ivs :: "(int \<times> int) list" where "ivs = [(13, 15)]"
  define goals :: "(int \<times> int) list" where "goals = [(15, 0)]"
  define flags where "flags = [True, True, False, False, False, False]"
  have n: "0 < length goals" by (simp add: goals_def)
  note concl = possession_interval_first_drop [OF drop_goals [folded goals_def]
      drop_intervals [folded ivs_def]]
  with n obtain arr k where
    arr: "attacking drop_physics (fst (goals ! 0)) (snd (goals ! 0)) = Inr arr"
    and k: "k < length arr" "ivs ! 0 = (fst (goals ! 0) - int k, fst (goals ! 0))"
      "\<forall>j < k. 19 / 20 < running_mean arr j"
      "(\<exists>j < length arr. \<not> 19 / 20 < running_mean arr j) \<longrightarrow> \<not> 19 / 20 < running_mean arr k"
    by blast
  from arr have arr_eq: "arr = flags"
    using drop_attacking by (simp add: goals_def flags_def)
  have "\<not> (19 / 20 :: real) < running_mean flags 2" "(2 :: nat) < length flags"
    by (simp_all add: flags_def running_mean_def)
  then have "\<exists>j < length flags. \<not> 19 / 20 < running_mean flags j" by blast
  with k arr_eq have "\<exists>k. (13, 15 :: int) = (15 - int k, 15) \<and> k < 6 \<and>
      (\<forall>j < k. 19 / 20 < running_mean flags j) \<and> \<not> 19 / 20 < running_mean flags k"
    by (auto simp: goals_def ivs_def flags_def)
  then show ?thesis
    using drop_run drop_goals drop_intervals drop_attacking drop_means
    unfolding flags_def by blast
qed


text \<open>
  The comparison is strict, as the docstring says (\<open>in over 95%\<close>): in
  \<open>kickoff_trace\<close> every scanned frame attacks, the running mean is 1 throughout, and
  with threshold 1 the interval starts at the goal.
\<close>

lemma strict_mean_example:
  "get_physics kickoff_trace True True True = Inr kickoff_physics \<and>
   find_goals kickoff_physics (marks kickoff_trace) = Inr [(15, 0)] \<and>
   attacking kickoff_physics 15 0 = Inr [True, True, True, True, True, True] \<and>
   running_mean [True, True, True, True, True, True] 5 = 1 \<and>
   poss_intervals kickoff_physics (marks kickoff_trace) 1 = Inr [(15, 15)]"
  using kickoff_run kickoff_goals kickoff_attacking kickoff_mean kickoff_intervals(3) by simp

text \<open>
  Claim C5, amended. With threshold 0, for a goal whose own frame attacks, the interval
  starts \<open>n - 1\<close> frames before the goal, \<open>n\<close> the number of scanned frames with a
  ball. When every scanned frame has a ball this is the frame after the last frame below
  the goal with no entry in the collection; and it is the kickoff frame itself that the
  kickoff scan resolves (from any start frame \<open>g \<ge> 0\<close>), not the frame after it,
  when every frame from that kickoff to the goal is in the collection and no frame of the
  collection is empty.
\<close>

theorem zero_threshold_interval:
  assumes "find_goals physics ms = Inr goals"
    and "poss_intervals physics ms 0 = Inr ivs"
    and "n < length goals"
    and "attacking physics (fst (goals ! n)) (snd (goals ! n)) = Inr arr"
    and "arr ! 0"
  shows "ivs ! n = (fst (goals ! n) - int (length arr - 1), fst (goals ! n)) \<and>
         (\<forall>L. last_kickoff physics (fst (goals ! n)) = Inr L \<and>
              (\<forall>f. L < f \<and> f \<le> fst (goals ! n) \<longrightarrow> get_snapshot physics f ''ball'' \<noteq> None) \<longrightarrow>
              map_of physics L = None \<and> fst (ivs ! n) = L + 1 \<and>
              (\<forall>g w. 0 \<le> g \<and> kickoff_scan physics g False = Some w \<and> w \<le> fst (goals ! n) \<and>
                     (\<forall>f. w \<le> f \<and> f \<le> fst (goals ! n) \<longrightarrow> map_of physics f \<noteq> None) \<and>
                     (\<forall>(f, m) \<in> set physics. m \<noteq> []) \<longrightarrow>
                     fst (ivs ! n) = w))"
proof -
  define goal where "goal = fst (goals ! n)"
  define team where "team = snd (goals ! n)"
  from assms(1,2) have loop: "intervals_loop physics 0 goals = Inr ivs"
    by (simp add: poss_intervals_def)
  from intervals_loop_nth [OF loop] assms(3)
  have "possession_interval physics 0 goal team = Inr (ivs ! n)"
    by (simp add: goal_def team_def)
  from possession_interval_parts [OF this] assms(4) obtain k where
    k: "find_window_size arr 0 = Inr k" and iv: "ivs ! n = (goal - int k, goal)"
    by (auto simp: goal_def team_def)
  note props = find_window_size_props [OF k]
  have "\<forall>j < length arr. 0 < running_mean arr j"
    using running_mean_positive [OF assms(5)] by blast
  with props have k_eq: "k = length arr - 1" and ne: "arr \<noteq> []" by blast+
  have start: "map_of physics L = None \<and> fst (ivs ! n) = L + 1 \<and>
      (\<forall>g w. 0 \<le> g \<and> kickoff_scan physics g False = Some w \<and> w \<le> goal \<and>
             (\<forall>f. w \<le> f \<and> f \<le> goal \<longrightarrow> map_of physics f \<noteq> None) \<and>
             (\<forall>(f, m) \<in> set physics. m \<noteq> []) \<longrightarrow>
             fst (ivs ! n) = w)"
    if L: "last_kickoff physics goal = Inr L"
      and balls: "\<forall>f. L < f \<and> f \<le> goal \<longrightarrow> get_snapshot physics f ''ball'' \<noteq> None" for L
  proof -
    from attacking_length [OF assms(4) [folded goal_def team_def] L balls] k_eq ne
    have "goal - int k = L + 1" by (cases arr) auto
    with iv have first: "fst (ivs ! n) = L + 1" by simp
    have "fst (ivs ! n) = w"
      if "0 \<le> g" "kickoff_scan physics g False = Some w" "w \<le> goal"
        "\<forall>f. w \<le> f \<and> f \<le> goal \<longrightarrow> map_of physics f \<noteq> None"
        "\<forall>(f, m) \<in> set physics. m \<noteq> []" for g w
      using last_kickoff_before_kickoff [OF that(2,1,3,4,5) L] first by simp
    with first last_kickoff_props [OF L] show ?thesis by blast
  qed
  show ?thesis
    unfolding goal_def [symmetric] using iv k_eq start by blast
qed

theorem zero_threshold_interval_witness:
  "find_goals kickoff_physics (marks kickoff_trace) = Inr [(15, 0)] \<and>
   poss_intervals kickoff_physics (marks kickoff_trace) 0 = Inr [(10, 15)] \<and>
   attacking kickoff_physics 15 0 = Inr [True, True, True, True, True, True] \<and>
   last_kickoff kickoff_physics 15 = Inr 9 \<and>
   kickoff_scan kickoff_physics 0 False = Some 10 \<and>
   map_of kickoff_physics 9 = None \<and>
   (\<exists>start. [(10, 15)] ! 0 = (start, 15 :: int) \<and> start = 15 - int (6 - 1) \<and>
      start = 9 + 1 \<and> start = 10)"
proof -
  define ivs :: "(int \<times> int) list" where "ivs = [(10, 15)]"
  define goals :: "(int \<times> int) list" where "goals = [(15, 0)]"
  define arr where "arr = [True, True, True, True, True, True]"
  have goals_eq: "fst (goals ! 0) = 15" "snd (goals ! 0) = 0" by (simp_all add: goals_def)
  have n: "0 < length goals" by (simp add: goals_def)
  have att: "attacking kickoff_physics (fst (goals ! 0)) (snd (goals ! 0)) = Inr arr"
    using kickoff_attacking by (simp add: goals_def arr_def)
  have first: "arr ! 0" by (simp add: arr_def)
  note concl = zero_threshold_interval [OF kickoff_goals [folded goals_def]
      kickoff_intervals(1) [folded ivs_def] n att first, unfolded goals_eq]
  from concl have start: "ivs ! 0 = (15 - int (length arr - 1), 15)" by (rule conjunct1)
  from concl have "\<forall>L. last_kickoff kickoff_physics 15 = Inr L \<and>
              (\<forall>f. L < f \<and> f \<le> 15 \<longrightarrow> get_snapshot kickoff_physics f ''ball'' \<noteq> None) \<longrightarrow>
              map_of kickoff_physics L = None \<and> fst (ivs ! 0) = L + 1 \<and>
              (\<forall>g w. 0 \<le> g \<and> kickoff_scan kickoff_physics g False = Some w \<and> w \<le> 15 \<and>
                     (\<forall>f. w \<le> f \<and> f \<le> 15 \<longrightarrow> map_of kickoff_physics f \<noteq> None) \<and>
                     (\<forall>(f, m) \<in> set kickoff_physics. m \<noteq> []) \<longrightarrow>
                     fst (ivs ! 0) = w)"
    by (rule conjunct2)
  with kickoff_last kickoff_balls have after: "map_of kickoff_physics 9 = None"
    "fst (ivs ! 0) = 9 + 1"
    and link: "\<forall>g w. 0 \<le> g \<and> kickoff_scan kickoff_physics g False = Some w \<and> w \<le> 15 \<and>
                     (\<forall>f. w \<le> f \<and> f \<le> 15 \<longrightarrow> map_of kickoff_physics f \<noteq> None) \<and>
                     (\<forall>(f, m) \<in> set kickoff_physics. m \<noteq> []) \<longrightarrow>
                     fst (ivs ! 0) = w"
    by blast+
  have "0 \<le> (0 :: int) \<and> kickoff_scan kickoff_physics 0 False = Some 10 \<and> (10 :: int) \<le> 15 \<and>
      (\<forall>f. 10 \<le> f \<and> f \<le> 15 \<longrightarrow> map_of kickoff_physics f \<noteq> None) \<and>
      (\<forall>(f, m) \<in> set kickoff_physics. m \<noteq> [])"
    using kickoff_scan_found kickoff_frames kickoff_nonempty by simp
  with link have kick: "fst (ivs ! 0) = 10"
    by blast
  from start after(2) kick have "\<exists>start. ivs ! 0 = (start, 15) \<and> start = 15 - int (6 - 1) \<and>
      start = 9 + 1 \<and> start = 10"
    by (simp add: arr_def)
  then show ?thesis
    using kickoff_goals kickoff_intervals(1) kickoff_attacking kickoff_last kickoff_scan_found
      after(1)
    unfolding ivs_def by blast
qed

text \<open>
  As claim C5 is stated, the interval starts one frame after the kickoff frame. In
  \<open>kickoff_trace\<close> the kickoff found from frame 0 is frame 10, and the interval of the
  goal at frame 15 starts at frame 10.
\<close>

theorem kickoff_plus_one_counterexample:
  "get_physics kickoff_trace True True True = Inr kickoff_physics \<and>
   find_goals kickoff_physics (marks kickoff_trace) = Inr [(15, 0)] \<and>
   find_kickoffs kickoff_physics (marks kickoff_trace) = Some (Inr [(0, 10)]) \<and>
   poss_intervals kickoff_physics (marks kickoff_trace) 0 = Inr [(10, 15)]"
  using kickoff_run kickoff_goals kickoff_found kickoff_intervals(1) by simp

end
